theory Spec2Isabelle
  imports Complex_Main
begin

section \<open>Constants of the model\<close>

text \<open>
  The compile-time constants of \<^verbatim>\<open>stress_damage_lh.cpp\<close>. Array indices are C++ \<^verbatim>\<open>int\<close>s
  and are kept as \<^typ>\<open>int\<close>; \<^verbatim>\<open>double\<close> values are read as exact reals.
\<close>

definition mu0 :: real where "mu0 = 2 / 1000"
definition hmin :: real where "hmin = 3 / 10"
definition hslope :: real where "hslope = 20"
definition maxD :: int where "maxD = 20"
definition repair :: int where "repair = 1"
definition maxT :: int where "maxT = 100"
definition maxH :: int where "maxH = 500"
definition maxTs :: int where "maxTs = 10"

section \<open>Environment, risk and damage tables\<close>

subsection \<open>Background mortality\<close>

text \<open>
  \<^verbatim>\<open>for (d=0;d<=maxD;++d) mu[d] = std::min(1.0, mu0 + Kmort*double(d));\<close>
\<close>

definition Mortality :: "real \<Rightarrow> (int \<Rightarrow> real) \<Rightarrow> (int \<Rightarrow> real)" where
  "Mortality Kmort m0 =
     fold (\<lambda>d m. m(d := min 1 (mu0 + Kmort * real_of_int d))) [0..maxD] m0"

text \<open>The global array \<^verbatim>\<open>mu\<close> before \<^verbatim>\<open>Mortality\<close> runs: zero-initialised.\<close>

definition mu_init :: "int \<Rightarrow> real" where
  "mu_init = (\<lambda>d. 0)"

subsection \<open>Predator presence\<close>

text \<open>
  The quotient of \<^verbatim>\<open>PredProb\<close> has the divisor \<^verbatim>\<open>1.0 - pPred[t-1]*pAttack\<close>. A zero divisor
  gives no real number (the program gets a NaN), which the model records as \<open>None\<close>; an
  entry computed from an undefined entry is undefined as well.

  The model evaluates the two assignments in exact reals, where the program rounds every
  operation to binary64. The two agree wherever every intermediate value is representable,
  as it is for the rates \<open>0\<close>, \<open>1/2\<close> and \<open>1\<close> at which the recursion is evaluated below.
  Statements about all rates are statements about the exact recursion only.
\<close>

definition checked_div :: "real \<Rightarrow> real \<Rightarrow> real option" where
  "checked_div a b = (if b = 0 then None else Some (a / b))"

definition PredProb_next :: "real \<Rightarrow> real \<Rightarrow> real \<Rightarrow> real option \<Rightarrow> real option" where
  "PredProb_next pLeave pArrive pAttack prev =
     (case prev of
        None \<Rightarrow> None
      | Some p \<Rightarrow>
          checked_div (p * (1 - pAttack) * (1 - pLeave) + (1 - p) * pArrive)
                      (1 - p * pAttack))"

definition PredProb_step ::
  "real \<Rightarrow> real \<Rightarrow> real \<Rightarrow> int \<Rightarrow> (int \<Rightarrow> real option) \<Rightarrow> (int \<Rightarrow> real option)" where
  "PredProb_step pLeave pArrive pAttack t pPred =
     pPred(t := PredProb_next pLeave pArrive pAttack (pPred (t - 1)))"

definition PredProb ::
  "real \<Rightarrow> real \<Rightarrow> real \<Rightarrow> (int \<Rightarrow> real option) \<Rightarrow> (int \<Rightarrow> real option)" where
  "PredProb pLeave pArrive pAttack pPred =
     fold (PredProb_step pLeave pArrive pAttack) [2..maxT] (pPred(1 := Some (1 - pLeave)))"

text \<open>The global array \<^verbatim>\<open>pPred\<close> before \<^verbatim>\<open>PredProb\<close> runs.\<close>

definition pPred_init :: "int \<Rightarrow> real option" where
  "pPred_init = (\<lambda>t. Some 0)"

subsection \<open>Damage\<close>

text \<open>
  \<^verbatim>\<open>dnew[d][h] = std::max(0.0, std::min(double(maxD), double(d)
     + hslope*(hmin-(double(h)/double(maxH)))*(hmin-(double(h)/double(maxH))) - double(repair)));\<close>
\<close>

definition Damage :: "(int \<times> int \<Rightarrow> real) \<Rightarrow> (int \<times> int \<Rightarrow> real)" where
  "Damage dn0 =
     fold (\<lambda>d. fold (\<lambda>h dn. dn((d, h) :=
               max 0 (min (real_of_int maxD)
                 (real_of_int d
                    + hslope * (hmin - real_of_int h / real_of_int maxH)
                             * (hmin - real_of_int h / real_of_int maxH)
                    - real_of_int repair)))) [0..maxH])
          [0..maxD] dn0"

subsection \<open>Reproduction\<close>

text \<open>
  \<^verbatim>\<open>repro[ts][d] = (ts % maxTs) == 0 ? std::max(0.0, 1.0 - Kfec*double(d)) : 0.0;\<close>
  for \<open>ts\<close> in \<open>[0, maxTs]\<close> and \<open>d\<close> in \<open>[0, maxD]\<close> (the printing of the last row is left out).
\<close>

definition Reproduction :: "real \<Rightarrow> (int \<times> int \<Rightarrow> real) \<Rightarrow> (int \<times> int \<Rightarrow> real)" where
  "Reproduction Kfec r0 =
     fold (\<lambda>ts. fold (\<lambda>d r. r((ts, d) :=
               (if ts mod maxTs = 0 then max 0 (1 - Kfec * real_of_int d) else 0))) [0..maxD])
          [0..maxTs] r0"

section \<open>The state of the program\<close>

text \<open>
  The derived tables that every phase reads. \<^verbatim>\<open>a[i][j]\<close> is written \<open>a (i, j)\<close>. The engine
  is verified for arbitrary contents of these tables.
\<close>

record tables =
  pPred :: "int \<Rightarrow> real"
  pAttack :: real
  pKilled :: "int \<Rightarrow> real"
  mu :: "int \<Rightarrow> real"
  dnew :: "int \<times> int \<Rightarrow> real"
  repro :: "int \<times> int \<Rightarrow> real"

text \<open>
  The arrays of the value iteration: \<open>hormone (t, ts, d)\<close>, \<open>Wopt (t, ts, d)\<close>,
  \<open>W (t, ts, d, h)\<close>, \<open>Wnext (t, ts, d, h)\<close>, \<open>V (t, d, h)\<close>, and the scalar \<open>totfitdiff\<close>.
\<close>

record sdp =
  hormone :: "int \<times> int \<times> int \<Rightarrow> int"
  Wopt :: "int \<times> int \<times> int \<Rightarrow> real"
  W :: "int \<times> int \<times> int \<times> int \<Rightarrow> real"
  Wnext :: "int \<times> int \<times> int \<times> int \<Rightarrow> real"
  V :: "int \<times> int \<times> int \<Rightarrow> real"
  totfitdiff :: real

text \<open>All arrays are constructed filled with zeros.\<close>

definition sdp_init :: sdp where
  "sdp_init = \<lparr>hormone = (\<lambda>i. 0), Wopt = (\<lambda>i. 0), W = (\<lambda>i. 0), Wnext = (\<lambda>i. 0),
               V = (\<lambda>i. 0), totfitdiff = 0\<rparr>"

text \<open>
  The tables of the parameter set \<open>pLeave = 0.5\<close>, \<open>pArrive = 0.1\<close>, \<open>pAttack = 0.5\<close>,
  \<open>alpha = 1\<close>, \<open>Kmort = 0\<close>, \<open>Kfec = 0.05\<close>; for \<open>alpha = 1\<close> the kill probability
  \<^verbatim>\<open>std::max(0.0, 1.0 - pow(double(h)/double(maxH), alpha))\<close> is the one written here.
\<close>

definition tables_example :: tables where
  "tables_example =
     \<lparr>pPred = (\<lambda>t. case PredProb (1 / 2) (1 / 10) (1 / 2) pPred_init t of Some p \<Rightarrow> p | None \<Rightarrow> 0),
      pAttack = 1 / 2,
      pKilled = (\<lambda>h. max 0 (1 - real_of_int h / real_of_int maxH)),
      mu = Mortality 0 mu_init,
      dnew = Damage (\<lambda>i. 0),
      repro = Reproduction (5 / 100) (\<lambda>i. 0)\<rparr>"

section \<open>Final fitness\<close>

text \<open>
  \<^verbatim>\<open>for (t=1;t<=maxT;++t) for (d=0;d<=maxD;++d) for (h=0;h<=maxH;++h)
    V[t][d][h] = Wnext[t][maxTs][d][h] = repro[maxTs][d];\<close>
\<close>

definition FinalFit_cell :: "tables \<Rightarrow> int \<Rightarrow> int \<Rightarrow> int \<Rightarrow> sdp \<Rightarrow> sdp" where
  "FinalFit_cell T t d h s =
     (let s1 = s\<lparr>Wnext := (Wnext s)((t, maxTs, d, h) := repro T (maxTs, d))\<rparr>
      in s1\<lparr>V := (V s1)((t, d, h) := Wnext s1 (t, maxTs, d, h))\<rparr>)"

definition FinalFit :: "tables \<Rightarrow> sdp \<Rightarrow> sdp" where
  "FinalFit T s =
     fold (\<lambda>t. fold (\<lambda>d. fold (\<lambda>h. FinalFit_cell T t d h) [0..maxH]) [0..maxD]) [1..maxT] s"

section \<open>Golden-section search\<close>

definition phi_inv :: real where
  "phi_inv = 1 / ((sqrt 5 + 1) / 2)"

text \<open>C's \<^verbatim>\<open>round\<close>: the nearest integer, halfway cases away from zero.\<close>

definition cround :: "real \<Rightarrow> int" where
  "cround x = (if 0 \<le> x then \<lfloor>x + 1 / 2\<rfloor> else - \<lfloor>- x + 1 / 2\<rfloor>)"

text \<open>\<^verbatim>\<open>round((double(b)-double(a))*phi_inv)\<close> with \<open>n = b - a\<close>.\<close>

definition golden_round :: "int \<Rightarrow> int" where
  "golden_round n = cround (real_of_int n * phi_inv)"

text \<open>
  The \<^verbatim>\<open>while (x1<x2)\<close> loop of \<^verbatim>\<open>OptDec\<close>; \<open>f h\<close> stands for
  \<^verbatim>\<open>Wnext[std::min(maxT,t+1)][ts + 1][d][h]\<close>. The local \<^verbatim>\<open>fitness_x1\<close> has no value of this
  search before the first pass through the body (\<open>None\<close>). The loop is a partial function:
  not returning is the value \<open>None\<close>. The result is the pair of \<^verbatim>\<open>x1\<close> and \<^verbatim>\<open>fitness_x1\<close>
  on exit.
\<close>

partial_function (option) gss_loop ::
  "(int \<Rightarrow> real) \<Rightarrow> int \<Rightarrow> int \<Rightarrow> int \<Rightarrow> int \<Rightarrow> real option \<Rightarrow> (int \<times> real option) option" where
  "gss_loop f LHS RHS x1 x2 fitness_x1 =
     (if x1 < x2 then
        (if f x1 < f x2
         then gss_loop f x1 RHS x2 (RHS - golden_round (RHS - x2)) (Some (f x1))
         else gss_loop f LHS x2 (LHS + golden_round (x1 - LHS)) x1 (Some (f x1)))
      else Some (x1, fitness_x1))"

definition golden_section :: "(int \<Rightarrow> real) \<Rightarrow> (int \<times> real option) option" where
  "golden_section f =
     gss_loop f 0 maxH (maxH - golden_round (maxH - 0)) (0 + golden_round (maxH - 0)) None"

section \<open>Optimal decision\<close>

text \<open>Loops whose body may fail to return: the first failure ends the run.\<close>

fun ofold :: "('a \<Rightarrow> 's \<Rightarrow> 's option) \<Rightarrow> 'a list \<Rightarrow> 's \<Rightarrow> 's option" where
  "ofold f [] s = Some s"
| "ofold f (x # xs) s = (case f x s of None \<Rightarrow> None | Some s' \<Rightarrow> ofold f xs s')"

text \<open>
  The search for one \<open>(t, d)\<close> at epoch \<open>ts\<close>, and the two assignments after it:
  \<^verbatim>\<open>hormone[t][ts][d] = x1; Wopt[t][ts][d] = fitness_x1;\<close>
  Reading \<^verbatim>\<open>fitness_x1\<close> when the loop body never ran is a failure of the model.
\<close>

definition OptDec_search_cell :: "int \<Rightarrow> int \<Rightarrow> int \<Rightarrow> sdp \<Rightarrow> sdp option" where
  "OptDec_search_cell ts t d s =
     (case golden_section (\<lambda>h. Wnext s (min maxT (t + 1), ts + 1, d, h)) of
        Some (x, Some fit) \<Rightarrow>
          Some (s\<lparr>hormone := (hormone s)((t, ts, d) := x), Wopt := (Wopt s)((t, ts, d) := fit)\<rparr>)
      | _ \<Rightarrow> None)"

definition OptDec_search :: "int \<Rightarrow> sdp \<Rightarrow> sdp option" where
  "OptDec_search ts s =
     ofold (\<lambda>t. ofold (\<lambda>d. OptDec_search_cell ts t d) [0..maxD]) [0..maxT] s"

text \<open>
  The expected fitness before the predator does or does not attack, for one \<open>(t, d, h)\<close>
  at epoch \<open>ts\<close>, and its copy into \<^verbatim>\<open>Wnext\<close>.
\<close>

definition OptDec_W_cell :: "tables \<Rightarrow> int \<Rightarrow> int \<Rightarrow> int \<Rightarrow> int \<Rightarrow> sdp \<Rightarrow> sdp" where
  "OptDec_W_cell T ts t d h s =
     (let d1 = \<lfloor>dnew T (d, h)\<rfloor>;
          d2 = \<lceil>dnew T (d, h)\<rceil>;
          ddec = dnew T (d, h) - real_of_int d1;
          s1 = s\<lparr>W := (W s)((t, ts, d, h) :=
                 pPred T t * pAttack T * (1 - pKilled T h) * (1 - mu T d)
                   * (repro T (ts, d) + (1 - ddec) * Wopt s (0, ts, d1) + ddec * Wopt s (0, ts, d2))
                 + (1 - pPred T t * pAttack T) * (1 - mu T d)
                   * (repro T (ts, d) + (1 - ddec) * Wopt s (t, ts, d1) + ddec * Wopt s (t, ts, d2)))\<rparr>
      in s1\<lparr>Wnext := (Wnext s1)((t, ts, d, h) := W s1 (t, ts, d, h))\<rparr>)"

definition OptDec_W :: "tables \<Rightarrow> int \<Rightarrow> sdp \<Rightarrow> sdp" where
  "OptDec_W T ts s =
     fold (\<lambda>t. fold (\<lambda>d. fold (\<lambda>h. OptDec_W_cell T ts t d h) [0..maxH]) [0..maxD]) [1..maxT] s"

definition OptDec_ts :: "tables \<Rightarrow> int \<Rightarrow> sdp \<Rightarrow> sdp option" where
  "OptDec_ts T ts s = map_option (OptDec_W T ts) (OptDec_search ts s)"

text \<open>\<^verbatim>\<open>for (ts = maxTs - 1; ts >= 0; --ts)\<close>\<close>

definition OptDec :: "tables \<Rightarrow> sdp \<Rightarrow> sdp option" where
  "OptDec T s = ofold (OptDec_ts T) (rev [0..maxTs - 1]) s"

section \<open>Replacing the fitness array\<close>

definition ReplaceFit_cell :: "int \<Rightarrow> int \<Rightarrow> int \<Rightarrow> real \<times> sdp \<Rightarrow> real \<times> sdp" where
  "ReplaceFit_cell t d h = (\<lambda>(fitdiff, s).
     (fitdiff + \<bar>V s (t, d, h) - W s (t, 0, d, h)\<bar>,
      s\<lparr>Wnext := (Wnext s)((t, maxTs, d, h) := W s (t, 0, d, h)),
        hormone := (hormone s)((t, maxTs, d) := hormone s (t, 0, d)),
        V := (V s)((t, d, h) := W s (t, 0, d, h))\<rparr>))"

definition ReplaceFit :: "sdp \<Rightarrow> sdp" where
  "ReplaceFit s =
     (let (fitdiff, s') =
            fold (\<lambda>t. fold (\<lambda>d. fold (\<lambda>h. ReplaceFit_cell t d h) [0..maxH]) [0..maxD]) [1..maxT]
                 (0, s)
      in s'\<lparr>totfitdiff := fitdiff\<rparr>)"

section \<open>Forward calculation\<close>

text \<open>
  The frequencies \<open>F (t, ts, d, h)\<close> and the three death tallies of \<^verbatim>\<open>fwdCalc\<close>. The policy
  array \<^verbatim>\<open>hormone\<close> is only read; it is the parameter \<open>hm\<close>.
\<close>

record fwd =
  F :: "int \<times> int \<times> int \<times> int \<Rightarrow> real"
  predDeaths :: real
  damageDeaths :: real
  bkgrndDeaths :: real

text \<open>The body of the innermost loop of the sweep: four \<^verbatim>\<open>+=\<close> on \<open>F\<close>, three on the tallies.\<close>

definition fwdCalc_cell ::
  "tables \<Rightarrow> (int \<times> int \<times> int \<Rightarrow> int) \<Rightarrow> int \<Rightarrow> int \<Rightarrow> int \<Rightarrow> int \<Rightarrow> fwd \<Rightarrow> fwd" where
  "fwdCalc_cell T hm t ts d h s =
     (let d1 = \<lfloor>dnew T (d, h)\<rfloor>;
          d2 = \<lceil>dnew T (d, h)\<rceil>;
          ddec = dnew T (d, h) - real_of_int d1;
          h1 = hm (0, ts, d1);
          F1 = (F s)((1, ts + 1, d1, h1) := F s (1, ts + 1, d1, h1)
                 + F s (t, ts, d, h) * pPred T t * pAttack T * (1 - pKilled T h) * (1 - mu T d) * (1 - ddec));
          h2 = hm (0, ts, d2);
          F2 = F1((1, ts + 1, d2, h2) := F1 (1, ts + 1, d2, h2)
                 + F1 (t, ts, d, h) * pPred T t * pAttack T * (1 - pKilled T h) * (1 - mu T d) * ddec);
          h3 = hm (min (maxT - 1) (t + 1), ts, d1);
          F3 = F2((min (maxT - 1) (t + 1), ts + 1, d1, h3) := F2 (min (maxT - 1) (t + 1), ts + 1, d1, h3)
                 + F2 (t, ts, d, h) * (1 - pPred T t * pAttack T) * (1 - mu T d) * (1 - ddec));
          h4 = hm (min (maxT - 1) (t + 1), ts, d2);
          F4 = F3((min (maxT - 1) (t + 1), ts + 1, d2, h4) := F3 (min (maxT - 1) (t + 1), ts + 1, d2, h4)
                 + F3 (t, ts, d, h) * (1 - pPred T t * pAttack T) * (1 - mu T d) * ddec)
      in s\<lparr>F := F4,
           predDeaths := predDeaths s + F4 (t, ts, d, h) * pPred T t * pAttack T * pKilled T h,
           damageDeaths := damageDeaths s
              + F4 (t, ts, d, h) * (1 - pPred T t * pAttack T * pKilled T h) * (mu T d - mu T 0),
           bkgrndDeaths := bkgrndDeaths s
              + F4 (t, ts, d, h) * (1 - pPred T t * pAttack T * pKilled T h) * mu T 0\<rparr>)"

definition fwdCalc_sweep :: "tables \<Rightarrow> (int \<times> int \<times> int \<Rightarrow> int) \<Rightarrow> fwd \<Rightarrow> fwd" where
  "fwdCalc_sweep T hm s =
     fold (\<lambda>t. fold (\<lambda>ts. fold (\<lambda>d. fold (\<lambda>h. fwdCalc_cell T hm t ts d h) [0..maxH]) [0..maxD])
                      [0..maxTs - 1]) [1..maxT] s"

text \<open>
  The season boundary. First
  \<^verbatim>\<open>F[1][maxTs][0][0] = F[1][maxTs][0][0]/(1.0-predDeaths-damageDeaths-bkgrndDeaths);\<close>
  then, for every \<open>(t, d, h)\<close>,
  \<^verbatim>\<open>F[t][maxTs][d][h] = F[t][maxTs][d][h]/(1.0-predDeaths-damageDeaths);\<close>
  \<^verbatim>\<open>F[t][0][d][h] = F[t][maxTs][d][h];\<close> and \<^verbatim>\<open>F[t][ts][d][h] = 0.0\<close> for \<open>ts\<close> in \<open>[1, maxTs]\<close>.
  The convergence measure \<^verbatim>\<open>maxfreqdiff\<close> does not enter the frequencies and is left out.
\<close>

definition fwdCalc_boundary_cell :: "int \<Rightarrow> int \<Rightarrow> int \<Rightarrow> fwd \<Rightarrow> fwd" where
  "fwdCalc_boundary_cell t d h s =
     (let F1 = (F s)((t, maxTs, d, h) := F s (t, maxTs, d, h) / (1 - predDeaths s - damageDeaths s));
          F2 = F1((t, 0, d, h) := F1 (t, maxTs, d, h))
      in s\<lparr>F := fold (\<lambda>ts A. A((t, ts, d, h) := 0)) [1..maxTs] F2\<rparr>)"

definition fwdCalc_boundary :: "fwd \<Rightarrow> fwd" where
  "fwdCalc_boundary s =
     (let s1 = s\<lparr>F := (F s)((1, maxTs, 0, 0) :=
                  F s (1, maxTs, 0, 0) / (1 - predDeaths s - damageDeaths s - bkgrndDeaths s))\<rparr>
      in fold (\<lambda>t. fold (\<lambda>d. fold (\<lambda>h. fwdCalc_boundary_cell t d h) [0..maxH]) [0..maxD]) [1..maxT] s1)"

text \<open>One pass through the body of \<^verbatim>\<open>while (maxfreqdiff > 0.000001)\<close>.\<close>

definition fwdCalc_iteration :: "tables \<Rightarrow> (int \<times> int \<times> int \<Rightarrow> int) \<Rightarrow> fwd \<Rightarrow> fwd" where
  "fwdCalc_iteration T hm s =
     fwdCalc_boundary (fwdCalc_sweep T hm (s\<lparr>predDeaths := 0, damageDeaths := 0, bkgrndDeaths := 0\<rparr>))"

text \<open>
  The frequencies on entry to the loop: everything zero, and
  \<^verbatim>\<open>F[maxT][0][0][0] = 1.0\<close>.
\<close>

definition fwdCalc_init :: fwd where
  "fwdCalc_init = \<lparr>F = (\<lambda>i. if i = (maxT, 0, 0, 0) then 1 else 0),
               predDeaths = 0, damageDeaths = 0, bkgrndDeaths = 0\<rparr>"

section \<open>Exploring the search over all comparison outcomes\<close>

text \<open>
  The brackets of the search do not depend on the fitness values, only on the outcome of
  each comparison. The functions below follow the brackets with integer arithmetic.
  \<open>isqrt_bis k lo hi\<close> is the integer square root of \<open>k\<close> by bisection of \<open>[lo, hi)\<close>, and
  \<open>golden_round_int\<close> computes \<open>golden_round\<close> from it.
\<close>

function isqrt_bis :: "int \<Rightarrow> int \<Rightarrow> int \<Rightarrow> int" where
  "isqrt_bis k lo hi =
     (if lo + 1 < hi
      then (let m = (lo + hi) div 2 in if m * m \<le> k then isqrt_bis k m hi else isqrt_bis k lo m)
      else lo)"
  by pat_completeness auto
termination
  by (relation "measure (\<lambda>(k, lo, hi). nat (hi - lo))") auto

definition golden_round_int :: "int \<Rightarrow> int" where
  "golden_round_int n =
     (if 0 \<le> n then (isqrt_bis (5 * n * n) (2 * n) (3 * n + 1) - n + 1) div 2
      else - ((isqrt_bis (5 * n * n) (- 2 * n) (- 3 * n + 1) + n + 1) div 2))"

text \<open>
  \<open>gss_bounded n L R a b\<close>: from the loop state \<open>(LHS, RHS, x1, x2) = (L, R, a, b)\<close>, whatever
  the comparisons give, the loop stops within \<open>n\<close> passes, reads only indices in
  \<open>[0, maxH]\<close>, and ends with \<open>x1\<close> in \<open>[0, maxH]\<close>.
\<close>

fun gss_bounded :: "nat \<Rightarrow> int \<Rightarrow> int \<Rightarrow> int \<Rightarrow> int \<Rightarrow> bool" where
  "gss_bounded 0 L R a b = (\<not> a < b \<and> 0 \<le> a \<and> a \<le> maxH)"
| "gss_bounded (Suc n) L R a b =
     (if a < b
      then 0 \<le> a \<and> b \<le> maxH
           \<and> gss_bounded n a R b (R - golden_round (R - b))
           \<and> gss_bounded n L b (L + golden_round (a - L)) a
      else 0 \<le> a \<and> a \<le> maxH)"

text \<open>
  \<open>gss_acc n lo hi L R a b\<close>: the same exploration, for a row that increases strictly up to
  a peak and decreases strictly after it, where the peak is only known to lie in
  \<open>[lo, hi]\<close>. A comparison \<open>f a < f b\<close> moves the peak above \<open>a\<close>, the opposite outcome moves
  it below \<open>b\<close>; every final \<open>x1\<close> is at most one unit from every remaining peak.
\<close>

fun gss_acc :: "nat \<Rightarrow> int \<Rightarrow> int \<Rightarrow> int \<Rightarrow> int \<Rightarrow> int \<Rightarrow> int \<Rightarrow> bool" where
  "gss_acc 0 lo hi L R a b = (hi < lo \<or> (\<not> a < b \<and> a - 1 \<le> lo \<and> hi \<le> a + 1))"
| "gss_acc (Suc n) lo hi L R a b =
     (hi < lo \<or>
      (if a < b
       then 0 \<le> a \<and> b \<le> maxH
            \<and> gss_acc n (max lo (a + 1)) hi a R b (R - golden_round (R - b))
            \<and> gss_acc n lo (min hi (b - 1)) L b (L + golden_round (a - L)) a
       else a - 1 \<le> lo \<and> hi \<le> a + 1))"

text \<open>
  \<open>gss_up n L R a b j\<close>: the run on a strictly increasing row (every comparison gives
  \<open>f a < f b\<close>); \<open>j\<close> is the index at which \<^verbatim>\<open>fitness_x1\<close> was last read. The result is the
  final \<open>x1\<close> and that index.
\<close>

fun gss_up :: "nat \<Rightarrow> int \<Rightarrow> int \<Rightarrow> int \<Rightarrow> int \<Rightarrow> int option \<Rightarrow> (int \<times> int option) option" where
  "gss_up 0 L R a b j = (if a < b then None else Some (a, j))"
| "gss_up (Suc n) L R a b j =
     (if a < b
      then (if 0 \<le> a \<and> b \<le> maxH then gss_up n a R b (R - golden_round (R - b)) (Some a) else None)
      else Some (a, j))"

section \<open>Bookkeeping for the epochs of the optimal-decision loop\<close>

text \<open>
  \<open>W_value T wo ts t d h\<close> names the right-hand side of the assignment to \<^verbatim>\<open>W[t][ts][d][h]\<close>,
  with \<open>wo\<close> for the array \<^verbatim>\<open>Wopt\<close>. \<open>epoch_done T u s\<close>: the entries of epoch \<open>u\<close> are as the
  pass for \<open>u\<close> leaves them; \<open>same_epoch u s s'\<close>: the entries of epoch \<open>u\<close> agree in \<open>s\<close> and
  \<open>s'\<close>; \<open>stored_ok s s'\<close>: every entry of \<^verbatim>\<open>hormone\<close> is unchanged or in \<open>[0, maxH]\<close>.
\<close>

definition W_value :: "tables \<Rightarrow> (int \<times> int \<times> int \<Rightarrow> real) \<Rightarrow> int \<Rightarrow> int \<Rightarrow> int \<Rightarrow> int \<Rightarrow> real" where
  "W_value T wo ts t d h =
     (let d1 = \<lfloor>dnew T (d, h)\<rfloor>;
          d2 = \<lceil>dnew T (d, h)\<rceil>;
          ddec = dnew T (d, h) - real_of_int d1
      in pPred T t * pAttack T * (1 - pKilled T h) * (1 - mu T d)
           * (repro T (ts, d) + (1 - ddec) * wo (0, ts, d1) + ddec * wo (0, ts, d2))
         + (1 - pPred T t * pAttack T) * (1 - mu T d)
           * (repro T (ts, d) + (1 - ddec) * wo (t, ts, d1) + ddec * wo (t, ts, d2)))"

definition epoch_done :: "tables \<Rightarrow> int \<Rightarrow> sdp \<Rightarrow> bool" where
  "epoch_done T u s \<longleftrightarrow>
     (\<forall>t d. 0 \<le> t \<and> t \<le> maxT \<and> 0 \<le> d \<and> d \<le> maxD
        \<longrightarrow> 0 \<le> hormone s (t, u, d) \<and> hormone s (t, u, d) \<le> maxH)
     \<and> (\<forall>t d h. 1 \<le> t \<and> t \<le> maxT \<and> 0 \<le> d \<and> d \<le> maxD \<and> 0 \<le> h \<and> h \<le> maxH
        \<longrightarrow> W s (t, u, d, h) = W_value T (Wopt s) u t d h
            \<and> Wnext s (t, u, d, h) = W s (t, u, d, h))"

definition same_epoch :: "int \<Rightarrow> sdp \<Rightarrow> sdp \<Rightarrow> bool" where
  "same_epoch u s s' \<longleftrightarrow>
     (\<forall>t d. hormone s' (t, u, d) = hormone s (t, u, d) \<and> Wopt s' (t, u, d) = Wopt s (t, u, d))
     \<and> (\<forall>t d h. W s' (t, u, d, h) = W s (t, u, d, h) \<and> Wnext s' (t, u, d, h) = Wnext s (t, u, d, h))"

definition stored_ok :: "sdp \<Rightarrow> sdp \<Rightarrow> bool" where
  "stored_ok s s' \<longleftrightarrow>
     (\<forall>i. hormone s' i = hormone s i \<or> (0 \<le> hormone s' i \<and> hormone s' i \<le> maxH))"

section \<open>The fitness step as the specification words it\<close>

text \<open>
  The reading of the specification: the no-attack branch weighted by the complement of
  the survived-attack weight, and its \<^verbatim>\<open>Wopt\<close> row indexed at \<open>min(maxT, t+1)\<close>.
\<close>

definition W_as_stated ::
  "tables \<Rightarrow> (int \<times> int \<times> int \<Rightarrow> real) \<Rightarrow> int \<Rightarrow> int \<Rightarrow> int \<Rightarrow> int \<Rightarrow> real" where
  "W_as_stated T wo ts t d h =
     (let d1 = \<lfloor>dnew T (d, h)\<rfloor>;
          d2 = \<lceil>dnew T (d, h)\<rceil>;
          ddec = dnew T (d, h) - real_of_int d1;
          w = pPred T t * pAttack T * (1 - pKilled T h)
      in w * ((1 - mu T d)
                * (repro T (ts, d) + (1 - ddec) * wo (0, ts, d1) + ddec * wo (0, ts, d2)))
         + (1 - w) * ((1 - mu T d)
                * (repro T (ts, d) + (1 - ddec) * wo (min maxT (t + 1), ts, d1)
                     + ddec * wo (min maxT (t + 1), ts, d2))))"

section \<open>Example states\<close>

text \<open>A state whose \<^verbatim>\<open>Wopt\<close> rows differ from one \<open>t\<close> to the next.\<close>

definition sdp_rows :: sdp where
  "sdp_rows = sdp_init\<lparr>Wopt := (\<lambda>(t, ts, d). real_of_int t)\<rparr>"

text \<open>A state whose \<^verbatim>\<open>Wnext\<close> rows increase strictly in \<open>h\<close>.\<close>

definition sdp_increasing :: sdp where
  "sdp_increasing = sdp_init\<lparr>Wnext := (\<lambda>(t, ts, d, h). real_of_int h)\<rparr>"

section \<open>Loops that assign one array cell per index\<close>

lemma fold_assign:
  "fold (\<lambda>i A. A(i := g i)) xs A j = (if j \<in> set xs then g j else A j)"
  by (induction xs arbitrary: A) auto

section \<open>Background mortality: range and monotonicity\<close>

lemma Mortality_at:
  "Mortality Kmort m d =
     (if 0 \<le> d \<and> d \<le> maxD then min 1 (mu0 + Kmort * real_of_int d) else m d)"
  unfolding Mortality_def by (simp add: fold_assign)

text \<open>
  C7 (as amended). For a non-negative \<open>Kmort\<close> and every \<open>d\<close> in \<open>[0, maxD]\<close>,
  \<open>mu[d] = min(1, mu0 + Kmort*d)\<close>, \<open>mu[d]\<close> lies in \<open>[0,1]\<close>, and \<open>mu\<close> is non-decreasing
  in \<open>d\<close>.
\<close>

theorem Mortality_range_mono:
  assumes "0 \<le> Kmort" and "0 \<le> d" and "d \<le> d'" and "d' \<le> maxD"
  shows "Mortality Kmort m d = min 1 (mu0 + Kmort * real_of_int d)
       \<and> 0 \<le> Mortality Kmort m d \<and> Mortality Kmort m d \<le> 1
       \<and> Mortality Kmort m d \<le> Mortality Kmort m d'"
proof -
  have d: "Mortality Kmort m d = min 1 (mu0 + Kmort * real_of_int d)"
    using assms by (simp add: Mortality_at)
  have d': "Mortality Kmort m d' = min 1 (mu0 + Kmort * real_of_int d')"
    using assms by (simp add: Mortality_at)
  have nn: "0 \<le> Kmort * real_of_int d"
    using assms by simp
  have le: "Kmort * real_of_int d \<le> Kmort * real_of_int d'"
    using assms by (simp add: mult_left_mono)
  from nn have "0 \<le> min 1 (mu0 + Kmort * real_of_int d)"
    by (simp add: mu0_def)
  moreover from le have "min 1 (mu0 + Kmort * real_of_int d) \<le> min 1 (mu0 + Kmort * real_of_int d')"
    by (simp add: min_le_iff_disj)
  ultimately show ?thesis
    using d d' by simp
qed

theorem Mortality_range_mono_witness:
  "Mortality (1 / 100) mu_init 3 = min 1 (mu0 + (1 / 100) * real_of_int 3)
     \<and> 0 \<le> Mortality (1 / 100) mu_init 3 \<and> Mortality (1 / 100) mu_init 3 \<le> 1
     \<and> Mortality (1 / 100) mu_init 3 \<le> Mortality (1 / 100) mu_init 7"
proof -
  have h: "(0::real) \<le> 1 / 100" "(0::int) \<le> 3" "(3::int) \<le> 7" "7 \<le> maxD"
    by (simp_all add: maxD_def)
  show ?thesis
    by (rule Mortality_range_mono [OF h])
qed

text \<open>
  C7 as stated fails for a negative \<open>Kmort\<close>: with \<open>Kmort = -1\<close> the entry \<open>mu[1]\<close> is
  negative and lies below \<open>mu[0]\<close>.
\<close>

theorem Mortality_negative_Kmort_counterexample:
  "Mortality (- 1) mu_init 1 < 0 \<and> Mortality (- 1) mu_init 1 < Mortality (- 1) mu_init 0"
  by (simp add: Mortality_at maxD_def mu0_def)

section \<open>Predator presence: the recursion and its range\<close>

lemma PredProb_fold_other:
  "t \<notin> set ts \<Longrightarrow> fold (PredProb_step l r a) ts A t = A t"
  by (induction ts arbitrary: A) (auto simp: PredProb_step_def)

lemma PredProb_fold_rec:
  assumes "2 \<le> t" and "t \<le> n"
  shows "fold (PredProb_step l r a) [2..n] A t
           = PredProb_next l r a (fold (PredProb_step l r a) [2..n] A (t - 1))"
  using assms(2)
proof (induction n rule: int_ge_induct)
  case base
  have split: "[2..t] = [2..t - 1] @ [t]"
    using assms(1) upto_rec2 [of 2 t] by simp
  show ?case
    by (simp add: split PredProb_step_def)
next
  case (step n)
  have split: "[2..n + 1] = [2..n] @ [n + 1]"
    using assms(1) step.hyps upto_rec2 [of 2 "n + 1"] by simp
  from step show ?case
    by (simp add: split PredProb_step_def)
qed

lemma PredProb_first: "PredProb l r a A 1 = Some (1 - l)"
  unfolding PredProb_def by (simp add: PredProb_fold_other)

lemma PredProb_rec:
  "2 \<le> t \<Longrightarrow> t \<le> maxT \<Longrightarrow> PredProb l r a A t = PredProb_next l r a (PredProb l r a A (t - 1))"
  unfolding PredProb_def by (rule PredProb_fold_rec)

text \<open>
  One step of the recursion keeps a probability a probability, as long as the divisor
  \<open>1 - p * pAttack\<close> is positive; the second conjunct of the invariant says that the next
  divisor is positive again.
\<close>

lemma PredProb_next_range:
  assumes l: "0 \<le> l" "l \<le> 1" and r: "0 \<le> r" "r \<le> 1" and a: "0 \<le> a" "a \<le> 1"
    and ok: "a < 1 \<or> (0 < l \<and> r < 1)"
    and p: "0 \<le> p" "p \<le> 1" "p * a < 1"
  shows "\<exists>q. PredProb_next l r a (Some p) = Some q \<and> 0 \<le> q \<and> q \<le> 1 \<and> q * a < 1"
proof -
  let ?num = "p * (1 - a) * (1 - l) + (1 - p) * r"
  let ?den = "1 - p * a"
  have den: "0 < ?den" using p by simp
  have num0: "0 \<le> ?num" using l r a p by simp
  have "p * (1 - a) * (1 - l) \<le> p * (1 - a) * 1"
    using l a p by (intro mult_left_mono) simp_all
  moreover have "(1 - p) * r \<le> (1 - p) * 1"
    using r p by (intro mult_left_mono) simp_all
  ultimately have num1: "?num \<le> ?den"
    by (simp add: algebra_simps)
  have q0: "0 \<le> ?num / ?den" using num0 den by simp
  have q1: "?num / ?den \<le> 1" using num1 den by simp
  have qa: "?num / ?den * a < 1"
  proof (cases "a < 1")
    case True
    have "?num / ?den * a \<le> 1 * a"
      using q1 a by (intro mult_right_mono) simp_all
    with True show ?thesis by simp
  next
    case False
    with a ok have a1: "a = 1" and r1: "r < 1" by simp_all
    from a1 p have "p < 1" by simp
    then have "?num / ?den = r" using a1 by simp
    with a1 r1 show ?thesis by simp
  qed
  have "PredProb_next l r a (Some p) = Some (?num / ?den)"
    using den by (simp add: PredProb_next_def checked_div_def)
  with q0 q1 qa show ?thesis by simp
qed

lemma PredProb_inv:
  assumes l: "0 \<le> l" "l \<le> 1" and r: "0 \<le> r" "r \<le> 1" and a: "0 \<le> a" "a \<le> 1"
    and ok: "a < 1 \<or> (0 < l \<and> r < 1)"
    and t: "1 \<le> t" "t \<le> maxT"
  shows "\<exists>p. PredProb l r a A t = Some p \<and> 0 \<le> p \<and> p \<le> 1 \<and> p * a < 1"
  using t
proof (induction t rule: int_ge_induct)
  case base
  have "(1 - l) * a < 1"
  proof (cases "a < 1")
    case True
    have "(1 - l) * a \<le> 1 * a"
      using l a by (intro mult_right_mono) simp_all
    with True show ?thesis by simp
  next
    case False
    with ok a have "0 < l" "a = 1" by simp_all
    then show ?thesis by simp
  qed
  with l show ?case by (simp add: PredProb_first)
next
  case (step t)
  then obtain p where p: "PredProb l r a A t = Some p" "0 \<le> p" "p \<le> 1" "p * a < 1"
    by auto
  have "PredProb l r a A (t + 1) = PredProb_next l r a (Some p)"
    using step.hyps step.prems PredProb_rec [of "t + 1" l r a A] p(1) by simp
  with PredProb_next_range [OF l r a ok p(2) p(3) p(4)] show ?case
    by simp
qed

text \<open>
  The exact recursion, away from a zero divisor: in exact real arithmetic, rates in
  \<open>[0,1]\<close> with \<open>pAttack < 1\<close>, or with \<open>pLeave > 0\<close> and \<open>pArrive < 1\<close>, give a defined
  quotient in \<open>[0,1]\<close> for every \<open>t\<close> in \<open>[1, maxT]\<close>. This is a fact of the exact recursion,
  not of the binary64 program: there \<^verbatim>\<open>1.0 - pLeave\<close> rounds to \<open>1.0\<close> for a small positive
  \<open>pLeave\<close>, and a rounded quotient can exceed \<open>1\<close>.
\<close>

lemma PredProb_range_exact:
  assumes "0 \<le> pLeave" "pLeave \<le> 1" and "0 \<le> pArrive" "pArrive \<le> 1"
    and "0 \<le> att" "att \<le> 1"
    and "att < 1 \<or> (0 < pLeave \<and> pArrive < 1)"
    and "1 \<le> t" "t \<le> maxT"
  shows "\<exists>p. PredProb pLeave pArrive att p0 t = Some p \<and> 0 \<le> p \<and> p \<le> 1"
  using PredProb_inv [OF assms] by blast

lemma PredProb_undefined_after:
  assumes "2 \<le> u" and "PredProb l r a A u = None" and "u \<le> t" and "t \<le> maxT"
  shows "PredProb l r a A t = None"
  using assms(3,4)
proof (induction t rule: int_ge_induct)
  case base
  show ?case by (rule assms(2))
next
  case (step t)
  then have "PredProb l r a A (t + 1) = PredProb_next l r a (PredProb l r a A (t + 1 - 1))"
    using assms(1) by (intro PredProb_rec) simp_all
  with step show ?case
    by (simp add: PredProb_next_def)
qed

text \<open>
  C4. The claim (for all rates in \<open>[0,1]\<close> the divisions of \<^verbatim>\<open>PredProb\<close> are defined and
  every \<open>pPred[t]\<close>, \<open>t\<close> in \<open>[1, maxT]\<close>, lies in \<open>[0,1]\<close>) does not hold of the program. With
  \<open>pLeave = 0\<close> and \<open>pAttack = 1\<close>, whatever \<open>pArrive\<close> is, \<open>pPred[1]\<close> is \<open>1\<close>, the divisor
  \<open>1 - pPred[1]*pAttack\<close> of \<open>pPred[2]\<close> is \<open>0\<close> under a numerator \<open>0\<close>, and \<open>pPred[t]\<close> is
  undefined for every \<open>t\<close> in \<open>[2, maxT]\<close>. Every value on the way is representable, so the
  program computes the same: \<open>0/0\<close>.
\<close>

theorem PredProb_certain_attack_undefined:
  "PredProb 0 r 1 p0 1 = Some 1
   \<and> PredProb_next 0 r 1 (Some 1) = checked_div 0 0
   \<and> (2 \<le> t \<and> t \<le> maxT \<longrightarrow> PredProb 0 r 1 p0 t = None)"
proof -
  have one: "PredProb 0 r 1 p0 1 = Some 1"
    by (simp add: PredProb_first)
  have quot: "PredProb_next 0 r 1 (Some 1) = checked_div 0 0"
    by (simp add: PredProb_next_def)
  have "PredProb 0 r 1 p0 2 = PredProb_next 0 r 1 (PredProb 0 r 1 p0 (2 - 1))"
    by (rule PredProb_rec) (simp_all add: maxT_def)
  with one quot have two: "PredProb 0 r 1 p0 2 = None"
    by (simp add: checked_div_def)
  have "PredProb 0 r 1 p0 t = None" if "2 \<le> t" "t \<le> maxT"
    using that by (intro PredProb_undefined_after [of 2 0 r 1 p0 t] two) simp_all
  with one quot show ?thesis by simp
qed

theorem PredProb_certain_attack_undefined_witness:
  "PredProb 0 0 1 pPred_init 1 = Some 1
   \<and> PredProb_next 0 0 1 (Some 1) = checked_div 0 0
   \<and> PredProb 0 0 1 pPred_init 2 = None
   \<and> PredProb 0 0 1 pPred_init 100 = None"
  using PredProb_certain_attack_undefined [of 0 pPred_init 2]
    PredProb_certain_attack_undefined [of 0 pPred_init 100]
  by (simp add: maxT_def)

text \<open>
  The same happens one step later when the predator is sure to arrive and to attack: with
  \<open>pLeave = 1/2\<close>, \<open>pArrive = 1\<close> and \<open>pAttack = 1\<close>, \<open>pPred[2]\<close> is \<open>1\<close> and \<open>pPred[3]\<close> is
  undefined.
\<close>

lemma PredProb_sure_arrival_undefined:
  "PredProb (1 / 2) 1 1 pPred_init 2 = Some 1 \<and> PredProb (1 / 2) 1 1 pPred_init 3 = None"
proof -
  have "PredProb (1 / 2) 1 1 pPred_init 2
      = PredProb_next (1 / 2) 1 1 (PredProb (1 / 2) 1 1 pPred_init (2 - 1))"
    by (rule PredProb_rec) (simp_all add: maxT_def)
  then have two: "PredProb (1 / 2) 1 1 pPred_init 2 = Some 1"
    by (simp add: PredProb_first PredProb_next_def checked_div_def)
  have "PredProb (1 / 2) 1 1 pPred_init 3
      = PredProb_next (1 / 2) 1 1 (PredProb (1 / 2) 1 1 pPred_init (3 - 1))"
    by (rule PredProb_rec) (simp_all add: maxT_def)
  with two have "PredProb (1 / 2) 1 1 pPred_init 3 = None"
    by (simp add: PredProb_next_def checked_div_def)
  with two show ?thesis by simp
qed

text \<open>
  C6. \<open>pPred[1] = 1 - pLeave\<close>; and with \<open>pLeave = 1\<close>, \<open>pArrive = 0\<close> and any \<open>pAttack\<close> in
  \<open>[0,1]\<close>, \<open>pPred[t] = 0\<close> for every \<open>t\<close> in \<open>[1, maxT]\<close>.
\<close>

theorem PredProb_first_and_never_returns:
  "PredProb pLeave pArrive att p0 1 = Some (1 - pLeave)
   \<and> (0 \<le> a \<and> a \<le> 1 \<and> 1 \<le> t \<and> t \<le> maxT \<longrightarrow> PredProb 1 0 a p0 t = Some 0)"
proof -
  have "PredProb 1 0 a p0 t = Some 0" if t: "1 \<le> t" "t \<le> maxT"
    using t
  proof (induction t rule: int_ge_induct)
    case base
    show ?case by (simp add: PredProb_first)
  next
    case (step t)
    then have "PredProb 1 0 a p0 (t + 1) = PredProb_next 1 0 a (Some 0)"
      using PredProb_rec [of "t + 1" 1 0 a p0] by simp
    then show ?case
      by (simp add: PredProb_next_def checked_div_def)
  qed
  then show ?thesis
    by (simp add: PredProb_first)
qed

theorem PredProb_first_and_never_returns_witness:
  "PredProb (1 / 2) (1 / 10) (1 / 2) pPred_init 1 = Some (1 - 1 / 2)
   \<and> PredProb 1 0 (1 / 2) pPred_init 100 = Some 0"
  using PredProb_first_and_never_returns [of "1 / 2" "1 / 10" "1 / 2" pPred_init "1 / 2" 100]
  by (simp add: maxT_def)

section \<open>Nested loops as one loop over the index tuples\<close>

lemma fold_product:
  "fold (\<lambda>a. fold (g a) bs) as s = fold (\<lambda>(a, b). g a b) (List.product as bs) s"
  by (induction as arbitrary: s) (simp_all add: fold_map comp_def)

lemma fold_product3:
  "fold (\<lambda>a. fold (\<lambda>b. fold (g a b) cs) bs) as s
     = fold (\<lambda>(a, b, c). g a b c) (List.product as (List.product bs cs)) s"
proof -
  have "(\<lambda>a. fold (\<lambda>b. fold (g a b) cs) bs) = (\<lambda>a. fold (\<lambda>(b, c). g a b c) (List.product bs cs))"
    by (rule ext)+ (simp add: fold_product)
  then show ?thesis
    by (simp add: fold_product split_def)
qed

section \<open>Reproduction table\<close>

lemma Reproduction_at:
  "Reproduction Kfec r0 (ts, d) =
     (if 0 \<le> ts \<and> ts \<le> maxTs \<and> 0 \<le> d \<and> d \<le> maxD
      then (if ts mod maxTs = 0 then max 0 (1 - Kfec * real_of_int d) else 0)
      else r0 (ts, d))"
proof -
  have flat: "Reproduction Kfec r0 =
      fold (\<lambda>(ts, d) r. r((ts, d) := (if ts mod maxTs = 0 then max 0 (1 - Kfec * real_of_int d) else 0)))
           (List.product [0..maxTs] [0..maxD]) r0"
    unfolding Reproduction_def by (simp add: fold_product)
  have "(\<lambda>(ts, d) r. r((ts, d) := (if ts mod maxTs = 0 then max 0 (1 - Kfec * real_of_int d) else 0)))
      = (\<lambda>i r. r(i := (if fst i mod maxTs = 0 then max 0 (1 - Kfec * real_of_int (snd i)) else 0)))"
    by (auto simp: fun_eq_iff)
  then show ?thesis
    unfolding flat by (simp add: fold_assign)
qed

section \<open>Final fitness: what is seeded\<close>

lemma FinalFit_flat:
  "FinalFit T s = fold (\<lambda>(t, d, h). FinalFit_cell T t d h)
                    (List.product [1..maxT] (List.product [0..maxD] [0..maxH])) s"
  unfolding FinalFit_def by (rule fold_product3)

lemma FinalFit_fold_Wnext:
  "Wnext (fold (\<lambda>(t, d, h). FinalFit_cell T t d h) xs s) (t', ts', d', h')
     = (if ts' = maxTs \<and> (t', d', h') \<in> set xs then repro T (maxTs, d') else Wnext s (t', ts', d', h'))"
  by (induction xs arbitrary: s) (auto simp: FinalFit_cell_def Let_def split: if_splits)

lemma FinalFit_fold_V:
  "V (fold (\<lambda>(t, d, h). FinalFit_cell T t d h) xs s) (t', d', h')
     = (if (t', d', h') \<in> set xs then repro T (maxTs, d') else V s (t', d', h'))"
  by (induction xs arbitrary: s) (auto simp: FinalFit_cell_def Let_def split: if_splits)

lemma FinalFit_Wnext:
  "Wnext (FinalFit T s) (t, ts, d, h)
     = (if ts = maxTs \<and> 1 \<le> t \<and> t \<le> maxT \<and> 0 \<le> d \<and> d \<le> maxD \<and> 0 \<le> h \<and> h \<le> maxH
        then repro T (maxTs, d) else Wnext s (t, ts, d, h))"
  by (simp add: FinalFit_flat FinalFit_fold_Wnext)

lemma FinalFit_V:
  "V (FinalFit T s) (t, d, h)
     = (if 1 \<le> t \<and> t \<le> maxT \<and> 0 \<le> d \<and> d \<le> maxD \<and> 0 \<le> h \<and> h \<le> maxH
        then repro T (maxTs, d) else V s (t, d, h))"
  by (simp add: FinalFit_flat FinalFit_fold_V)

text \<open>
  C5 (as amended). \<^verbatim>\<open>FinalFit\<close> seeds \<open>Wnext[t][maxTs][d][h]\<close> and \<open>V[t][d][h]\<close> to
  \<open>repro[maxTs][d]\<close> for all \<open>t\<close> in \<open>[1, maxT]\<close>, \<open>d\<close> in \<open>[0, maxD]\<close> and \<open>h\<close> in \<open>[0, maxH]\<close>; the
  entries with \<open>t = 0\<close> are left as they were.
\<close>

theorem FinalFit_seeds:
  assumes "1 \<le> t" and "t \<le> maxT" and "0 \<le> d" and "d \<le> maxD" and "0 \<le> h" and "h \<le> maxH"
  shows "Wnext (FinalFit T s) (t, maxTs, d, h) = repro T (maxTs, d)
       \<and> V (FinalFit T s) (t, d, h) = repro T (maxTs, d)
       \<and> Wnext (FinalFit T s) (0, maxTs, d, h) = Wnext s (0, maxTs, d, h)
       \<and> V (FinalFit T s) (0, d, h) = V s (0, d, h)"
  using assms by (simp add: FinalFit_Wnext FinalFit_V)

theorem FinalFit_seeds_witness:
  "Wnext (FinalFit tables_example sdp_init) (1, maxTs, 0, 0) = repro tables_example (maxTs, 0)
     \<and> V (FinalFit tables_example sdp_init) (1, 0, 0) = repro tables_example (maxTs, 0)
     \<and> Wnext (FinalFit tables_example sdp_init) (0, maxTs, 0, 0) = Wnext sdp_init (0, maxTs, 0, 0)
     \<and> V (FinalFit tables_example sdp_init) (0, 0, 0) = V sdp_init (0, 0, 0)"
proof -
  have h: "(1::int) \<le> 1" "1 \<le> maxT" "(0::int) \<le> 0" "0 \<le> maxD" "(0::int) \<le> 0" "0 \<le> maxH"
    by (simp_all add: maxT_def maxD_def maxH_def)
  show ?thesis
    by (rule FinalFit_seeds [OF h])
qed

text \<open>
  C5 as stated fails at \<open>t = 0\<close>: after \<^verbatim>\<open>FinalFit\<close> on the freshly constructed arrays,
  \<open>Wnext[0][maxTs][0][0]\<close> and \<open>V[0][0][0]\<close> are \<open>0\<close> while \<open>repro[maxTs][0]\<close> is \<open>1\<close>.
\<close>

theorem FinalFit_t0_counterexample:
  "Wnext (FinalFit tables_example sdp_init) (0, maxTs, 0, 0) = 0
     \<and> V (FinalFit tables_example sdp_init) (0, 0, 0) = 0
     \<and> repro tables_example (maxTs, 0) = 1"
  by (simp add: FinalFit_Wnext FinalFit_V sdp_init_def tables_example_def Reproduction_at
      maxTs_def maxD_def)

section \<open>The rounded golden split in integer arithmetic\<close>

lemma isqrt_bis_correct:
  "0 \<le> lo \<Longrightarrow> lo * lo \<le> k \<Longrightarrow> k < hi * hi \<Longrightarrow> lo < hi \<Longrightarrow>
     0 \<le> isqrt_bis k lo hi \<and> isqrt_bis k lo hi * isqrt_bis k lo hi \<le> k
     \<and> k < (isqrt_bis k lo hi + 1) * (isqrt_bis k lo hi + 1)"
proof (induction k lo hi rule: isqrt_bis.induct)
  case (1 k lo hi)
  show ?case
  proof (cases "lo + 1 < hi")
    case False
    with "1.prems" have "hi = lo + 1" by simp
    with False "1.prems" show ?thesis by simp
  next
    case True
    define m where "m = (lo + hi) div 2"
    have m: "lo < m" "m < hi" using True by (simp_all add: m_def)
    show ?thesis
    proof (cases "m * m \<le> k")
      case le: True
      have "0 \<le> isqrt_bis k m hi \<and> isqrt_bis k m hi * isqrt_bis k m hi \<le> k
            \<and> k < (isqrt_bis k m hi + 1) * (isqrt_bis k m hi + 1)"
        using "1.IH"(1) [OF True m_def le] m le "1.prems" by simp
      moreover have "isqrt_bis k lo hi = isqrt_bis k m hi"
        using True le by (subst isqrt_bis.simps) (simp add: m_def Let_def)
      ultimately show ?thesis by simp
    next
      case gt: False
      have "0 \<le> isqrt_bis k lo m \<and> isqrt_bis k lo m * isqrt_bis k lo m \<le> k
            \<and> k < (isqrt_bis k lo m + 1) * (isqrt_bis k lo m + 1)"
        using "1.IH"(2) [OF True m_def gt] m gt "1.prems" by simp
      moreover have "isqrt_bis k lo hi = isqrt_bis k lo m"
        using True gt by (subst isqrt_bis.simps) (simp add: m_def Let_def)
      ultimately show ?thesis by simp
    qed
  qed
qed

lemma phi_inv_alt: "phi_inv = (sqrt 5 - 1) / 2"
proof -
  have "0 < (sqrt 5 + 1) / 2"
    by (simp add: add_nonneg_pos)
  then have nz: "(sqrt 5 + 1) / 2 \<noteq> 0"
    by simp
  have "(sqrt 5 - 1) / 2 * ((sqrt 5 + 1) / 2) = 1"
    by (simp add: algebra_simps)
  moreover have "x = 1 / b" if "x * b = 1" "b \<noteq> 0" for x b :: real
    using that by (simp add: field_simps)
  ultimately have "(sqrt 5 - 1) / 2 = 1 / ((sqrt 5 + 1) / 2)"
    using nz by blast
  then show ?thesis
    by (simp only: phi_inv_def)
qed

lemma floor_sqrt5:
  assumes n: "0 \<le> n" and r: "0 \<le> r" "r * r \<le> 5 * n * n" "5 * n * n < (r + 1) * (r + 1)"
  shows "\<lfloor>real_of_int n * sqrt 5\<rfloor> = r"
proof -
  have eq: "real_of_int n * sqrt 5 = sqrt (real_of_int (5 * n * n))"
    using n by (simp add: real_sqrt_mult)
  have "(real_of_int r)\<^sup>2 \<le> real_of_int (5 * n * n)"
    using r(2) by (metis of_int_le_iff of_int_mult power2_eq_square)
  then have lo: "real_of_int r \<le> sqrt (real_of_int (5 * n * n))"
    by (rule real_le_rsqrt)
  have "real_of_int (5 * n * n) < (real_of_int (r + 1))\<^sup>2"
    using r(3) by (metis of_int_less_iff of_int_mult power2_eq_square)
  then have hi: "sqrt (real_of_int (5 * n * n)) < real_of_int (r + 1)"
    using r(1) by (intro real_less_lsqrt) simp_all
  show ?thesis
    unfolding eq using lo hi by (intro floor_unique) simp_all
qed

lemma golden_round_nonneg:
  assumes n: "0 \<le> n"
  shows "golden_round n = (isqrt_bis (5 * n * n) (2 * n) (3 * n + 1) - n + 1) div 2"
proof -
  let ?r = "isqrt_bis (5 * n * n) (2 * n) (3 * n + 1)"
  have sq: "0 \<le> n * n" by simp
  have lo: "2 * n * (2 * n) \<le> 5 * n * n"
    using sq by simp
  have "(3 * n + 1) * (3 * n + 1) = 9 * (n * n) + 6 * n + 1"
    by (simp add: algebra_simps)
  moreover have "5 * n * n = 5 * (n * n)" by simp
  ultimately have hi: "5 * n * n < (3 * n + 1) * (3 * n + 1)"
    using n sq by linarith
  have "0 \<le> ?r \<and> ?r * ?r \<le> 5 * n * n \<and> 5 * n * n < (?r + 1) * (?r + 1)"
    using n lo hi by (intro isqrt_bis_correct) simp_all
  then have fl: "\<lfloor>real_of_int n * sqrt 5\<rfloor> = ?r"
    using n by (intro floor_sqrt5) simp_all
  have s1: "1 \<le> sqrt 5" by simp
  have x0: "0 \<le> real_of_int n * phi_inv"
    using n s1 by (simp add: phi_inv_alt)
  have "real_of_int n * phi_inv + 1 / 2 = (real_of_int n * sqrt 5 + real_of_int (1 - n)) / real_of_int 2"
    by (simp add: phi_inv_alt field_simps)
  then have "\<lfloor>real_of_int n * phi_inv + 1 / 2\<rfloor> = \<lfloor>real_of_int n * sqrt 5 + real_of_int (1 - n)\<rfloor> div 2"
    by (simp only: floor_divide_real_eq_div [of 2])
  also have "\<dots> = (?r + (1 - n)) div 2"
    by (simp only: floor_add_int [symmetric] fl)
  finally show ?thesis
    using x0 by (simp add: golden_round_def cround_def algebra_simps)
qed

lemma golden_round_neg:
  assumes n: "n < 0"
  shows "golden_round n = - golden_round (- n)"
proof -
  have s1: "1 < sqrt 5" by simp
  have "0 < phi_inv" using s1 by (simp add: phi_inv_alt)
  then have "real_of_int n * phi_inv < 0"
    using n by (simp add: mult_neg_pos)
  moreover have "0 \<le> real_of_int (- n) * phi_inv"
    using n \<open>0 < phi_inv\<close> by (simp add: mult_nonpos_nonneg mult_le_0_iff)
  ultimately show ?thesis
    by (simp add: golden_round_def cround_def)
qed

lemma golden_round_code [code]: "golden_round n = golden_round_int n"
proof (cases "0 \<le> n")
  case True
  then show ?thesis by (simp add: golden_round_int_def golden_round_nonneg)
next
  case False
  then have "golden_round n = - golden_round (- n)" by (simp add: golden_round_neg)
  also have "\<dots> = - ((isqrt_bis (5 * (- n) * (- n)) (2 * (- n)) (3 * (- n) + 1) - (- n) + 1) div 2)"
    using False by (simp add: golden_round_nonneg)
  finally show ?thesis using False by (simp add: golden_round_int_def)
qed

lemma gss_bounded_init:
  "gss_bounded 12 0 maxH (maxH - golden_round (maxH - 0)) (0 + golden_round (maxH - 0))"
  by code_simp

lemma gss_bounded_sound:
  "gss_bounded n L R a b \<Longrightarrow>
     \<exists>x fit. gss_loop f L R a b fx = Some (x, fit) \<and> 0 \<le> x \<and> x \<le> maxH
            \<and> (a < b \<or> fx \<noteq> None \<longrightarrow> fit \<noteq> None)"
proof (induction n arbitrary: L R a b fx)
  case 0
  then show ?case
    by (subst gss_loop.simps) simp
next
  case (Suc n)
  show ?case
  proof (cases "a < b")
    case False
    with Suc.prems show ?thesis
      by (subst gss_loop.simps) simp
  next
    case True
    with Suc.prems have
      b1: "gss_bounded n a R b (R - golden_round (R - b))" and
      b2: "gss_bounded n L b (L + golden_round (a - L)) a"
      by simp_all
    show ?thesis
    proof (cases "f a < f b")
      case lt: True
      from Suc.IH [OF b1, of "Some (f a)"] obtain x fit where
        "gss_loop f a R b (R - golden_round (R - b)) (Some (f a)) = Some (x, fit)"
        "0 \<le> x" "x \<le> maxH" "fit \<noteq> None"
        by auto
      with True lt show ?thesis
        by (subst gss_loop.simps) simp
    next
      case ge: False
      from Suc.IH [OF b2, of "Some (f a)"] obtain x fit where
        "gss_loop f L b (L + golden_round (a - L)) a (Some (f a)) = Some (x, fit)"
        "0 \<le> x" "x \<le> maxH" "fit \<noteq> None"
        by auto
      with True ge show ?thesis
        by (subst gss_loop.simps) simp
    qed
  qed
qed

text \<open>
  Whatever the row, the search returns, with an index in \<open>[0, maxH]\<close> and a fitness read
  inside the loop.
\<close>

lemma golden_section_returns:
  "\<exists>x v. golden_section f = Some (x, Some v) \<and> 0 \<le> x \<and> x \<le> maxH"
proof -
  have lt: "maxH - golden_round (maxH - 0) < 0 + golden_round (maxH - 0)"
    by code_simp
  from gss_bounded_sound [OF gss_bounded_init, of f None] lt show ?thesis
    unfolding golden_section_def by auto
qed

text \<open>
  C9. The golden-section loop of \<^verbatim>\<open>OptDec\<close> terminates for every content of the \<^verbatim>\<open>Wnext\<close>
  row: from the bracket \<open>[0, maxH]\<close> the search returns, whatever the comparisons give.
\<close>

theorem golden_section_terminates: "\<exists>r. golden_section f = Some r"
  using golden_section_returns [of f] by blast

lemma gss_acc_init:
  "gss_acc 12 0 maxH 0 maxH (maxH - golden_round (maxH - 0)) (0 + golden_round (maxH - 0))"
  by code_simp

lemma gss_acc_sound:
  assumes up: "\<And>x y. 0 \<le> x \<Longrightarrow> x < y \<Longrightarrow> y \<le> p \<Longrightarrow> f x < f y"
    and down: "\<And>x y. p \<le> x \<Longrightarrow> x < y \<Longrightarrow> y \<le> maxH \<Longrightarrow> f y < f x"
  shows "gss_acc n lo hi L R a b \<Longrightarrow> lo \<le> p \<Longrightarrow> p \<le> hi \<Longrightarrow>
     \<exists>x fit. gss_loop f L R a b fx = Some (x, fit) \<and> \<bar>x - p\<bar> \<le> 1"
proof (induction n arbitrary: lo hi L R a b fx)
  case 0
  then show ?case
    by (subst gss_loop.simps) auto
next
  case (Suc n)
  show ?case
  proof (cases "a < b")
    case False
    with Suc.prems show ?thesis
      by (subst gss_loop.simps) auto
  next
    case True
    with Suc.prems have rng: "0 \<le> a" "b \<le> maxH" and
      b1: "gss_acc n (max lo (a + 1)) hi a R b (R - golden_round (R - b))" and
      b2: "gss_acc n lo (min hi (b - 1)) L b (L + golden_round (a - L)) a"
      by auto
    show ?thesis
    proof (cases "f a < f b")
      case lt: True
      have "a < p"
      proof (rule ccontr)
        assume "\<not> a < p"
        then have "f b < f a" using True rng by (intro down) simp_all
        with lt show False by simp
      qed
      then have "max lo (a + 1) \<le> p" using Suc.prems by simp
      from Suc.IH [OF b1 this Suc.prems(3), of "Some (f a)"] True lt show ?thesis
        by (subst gss_loop.simps) simp
    next
      case ge: False
      have "p < b"
      proof (rule ccontr)
        assume "\<not> p < b"
        then have "f a < f b" using True rng by (intro up) simp_all
        with ge show False by simp
      qed
      then have "p \<le> min hi (b - 1)" using Suc.prems by simp
      from Suc.IH [OF b2 Suc.prems(2) this, of "Some (f a)"] True ge show ?thesis
        by (subst gss_loop.simps) simp
    qed
  qed
qed

text \<open>
  On a row that increases strictly up to its peak \<open>p\<close> and decreases strictly after it, the
  search returns an index at most one lattice unit from \<open>p\<close>.
\<close>

lemma golden_section_within_one:
  assumes p: "0 \<le> p" "p \<le> maxH"
    and up: "\<And>x y. 0 \<le> x \<Longrightarrow> x < y \<Longrightarrow> y \<le> p \<Longrightarrow> f x < f y"
    and down: "\<And>x y. p \<le> x \<Longrightarrow> x < y \<Longrightarrow> y \<le> maxH \<Longrightarrow> f y < f x"
  shows "\<exists>x fit. golden_section f = Some (x, fit) \<and> \<bar>x - p\<bar> \<le> 1"
  unfolding golden_section_def
  using gss_acc_sound [of p f, OF up down gss_acc_init p] by blast

lemma gss_up_init:
  "gss_up 12 0 maxH (maxH - golden_round (maxH - 0)) (0 + golden_round (maxH - 0)) None
     = Some (499, Some 498)"
  by code_simp

lemma gss_up_sound:
  assumes up: "\<And>x y. 0 \<le> x \<Longrightarrow> x < y \<Longrightarrow> y \<le> maxH \<Longrightarrow> f x < f y"
  shows "gss_up n L R a b j = Some (x, k) \<Longrightarrow>
     gss_loop f L R a b (map_option f j) = Some (x, map_option f k)"
proof (induction n arbitrary: L R a b j)
  case 0
  then show ?case
    by (subst gss_loop.simps) (auto split: if_splits)
next
  case (Suc n)
  show ?case
  proof (cases "a < b")
    case False
    with Suc.prems show ?thesis
      by (subst gss_loop.simps) auto
  next
    case True
    with Suc.prems have rng: "0 \<le> a" "b \<le> maxH"
      and rec: "gss_up n a R b (R - golden_round (R - b)) (Some a) = Some (x, k)"
      by (auto split: if_splits)
    have "f a < f b" using True rng by (intro up)
    with Suc.IH [OF rec] True show ?thesis
      by (subst gss_loop.simps) simp
  qed
qed

text \<open>
  On a strictly increasing row the search returns the index \<open>499\<close>, and \<^verbatim>\<open>fitness_x1\<close> holds
  the fitness at \<open>498\<close>.
\<close>

lemma golden_section_increasing:
  assumes up: "\<And>x y. 0 \<le> x \<Longrightarrow> x < y \<Longrightarrow> y \<le> maxH \<Longrightarrow> f x < f y"
  shows "golden_section f = Some (499, Some (f 498))"
  unfolding golden_section_def
  using gss_up_sound [of f, OF up gss_up_init] by simp

section \<open>Optimal decision: what one pass stores\<close>

lemma ofold_append:
  "ofold f (xs @ ys) s = (case ofold f xs s of None \<Rightarrow> None | Some s' \<Rightarrow> ofold f ys s')"
  by (induction xs arbitrary: s) (auto split: option.splits)

lemma ofold_map: "ofold f (map g xs) s = ofold (\<lambda>x. f (g x)) xs s"
  by (induction xs arbitrary: s) (auto split: option.splits)

lemma ofold_product:
  "ofold (\<lambda>a. ofold (g a) bs) as s = ofold (\<lambda>(a, b). g a b) (List.product as bs) s"
  by (induction as arbitrary: s) (auto simp: ofold_append ofold_map split: option.splits)

lemma OptDec_search_cell_result:
  "\<exists>x v. OptDec_search_cell ts t d s
            = Some (s\<lparr>hormone := (hormone s)((t, ts, d) := x), Wopt := (Wopt s)((t, ts, d) := v)\<rparr>)
         \<and> 0 \<le> x \<and> x \<le> maxH"
proof -
  obtain x v where "golden_section (\<lambda>h. Wnext s (min maxT (t + 1), ts + 1, d, h)) = Some (x, Some v)"
    "0 \<le> x" "x \<le> maxH"
    using golden_section_returns by blast
  then show ?thesis
    by (auto simp: OptDec_search_cell_def)
qed

lemma OptDec_search_flat:
  "\<exists>s'. ofold (\<lambda>(t, d). OptDec_search_cell ts t d) xs s = Some s'
     \<and> W s' = W s \<and> Wnext s' = Wnext s \<and> V s' = V s
     \<and> (\<forall>t u d. u \<noteq> ts \<longrightarrow> hormone s' (t, u, d) = hormone s (t, u, d)
                          \<and> Wopt s' (t, u, d) = Wopt s (t, u, d))
     \<and> (\<forall>i. hormone s' i = hormone s i \<or> (0 \<le> hormone s' i \<and> hormone s' i \<le> maxH))
     \<and> (\<forall>t d. (t, d) \<in> set xs \<longrightarrow> 0 \<le> hormone s' (t, ts, d) \<and> hormone s' (t, ts, d) \<le> maxH)"
proof (induction xs arbitrary: s)
  case Nil
  show ?case by simp
next
  case (Cons td xs)
  obtain t d where td: "td = (t, d)" by (cases td)
  obtain x v where cell: "OptDec_search_cell ts t d s
       = Some (s\<lparr>hormone := (hormone s)((t, ts, d) := x), Wopt := (Wopt s)((t, ts, d) := v)\<rparr>)"
    and x: "0 \<le> x" "x \<le> maxH"
    using OptDec_search_cell_result by blast
  let ?s1 = "s\<lparr>hormone := (hormone s)((t, ts, d) := x), Wopt := (Wopt s)((t, ts, d) := v)\<rparr>"
  from Cons.IH [of ?s1] obtain s' where
    run: "ofold (\<lambda>(t, d). OptDec_search_cell ts t d) xs ?s1 = Some s'"
    and same: "W s' = W ?s1" "Wnext s' = Wnext ?s1" "V s' = V ?s1"
    and frame: "\<forall>t u d. u \<noteq> ts \<longrightarrow> hormone s' (t, u, d) = hormone ?s1 (t, u, d)
                          \<and> Wopt s' (t, u, d) = Wopt ?s1 (t, u, d)"
    and stored: "\<forall>i. hormone s' i = hormone ?s1 i \<or> (0 \<le> hormone s' i \<and> hormone s' i \<le> maxH)"
    and fin: "\<forall>t d. (t, d) \<in> set xs \<longrightarrow> 0 \<le> hormone s' (t, ts, d) \<and> hormone s' (t, ts, d) \<le> maxH"
    by blast
  have 1: "ofold (\<lambda>(t, d). OptDec_search_cell ts t d) (td # xs) s = Some s'"
    using cell run by (simp add: td)
  have 2: "\<forall>t u d. u \<noteq> ts \<longrightarrow> hormone s' (t, u, d) = hormone s (t, u, d)
                          \<and> Wopt s' (t, u, d) = Wopt s (t, u, d)"
    using frame by simp
  have 3: "\<forall>i. hormone s' i = hormone s i \<or> (0 \<le> hormone s' i \<and> hormone s' i \<le> maxH)"
  proof
    fix i
    from stored have "hormone s' i = hormone ?s1 i \<or> (0 \<le> hormone s' i \<and> hormone s' i \<le> maxH)" ..
    then show "hormone s' i = hormone s i \<or> (0 \<le> hormone s' i \<and> hormone s' i \<le> maxH)"
      using x by (cases "i = (t, ts, d)") auto
  qed
  have "0 \<le> hormone s' (t, ts, d) \<and> hormone s' (t, ts, d) \<le> maxH"
    using stored [rule_format, of "(t, ts, d)"] x by auto
  with fin have 4: "\<forall>t' d'. (t', d') \<in> set (td # xs)
       \<longrightarrow> 0 \<le> hormone s' (t', ts, d') \<and> hormone s' (t', ts, d') \<le> maxH"
    by (auto simp: td)
  from 1 2 3 4 same show ?case
    by (intro exI [of _ s']) simp
qed

lemma OptDec_search_result:
  "\<exists>s'. OptDec_search ts s = Some s'
     \<and> W s' = W s \<and> Wnext s' = Wnext s \<and> V s' = V s
     \<and> (\<forall>t u d. u \<noteq> ts \<longrightarrow> hormone s' (t, u, d) = hormone s (t, u, d)
                          \<and> Wopt s' (t, u, d) = Wopt s (t, u, d))
     \<and> (\<forall>i. hormone s' i = hormone s i \<or> (0 \<le> hormone s' i \<and> hormone s' i \<le> maxH))
     \<and> (\<forall>t d. 0 \<le> t \<and> t \<le> maxT \<and> 0 \<le> d \<and> d \<le> maxD
              \<longrightarrow> 0 \<le> hormone s' (t, ts, d) \<and> hormone s' (t, ts, d) \<le> maxH)"
  using OptDec_search_flat [of ts "List.product [0..maxT] [0..maxD]" s]
  unfolding OptDec_search_def ofold_product by simp

lemma OptDec_W_flat:
  "OptDec_W T ts s = fold (\<lambda>(t, d, h). OptDec_W_cell T ts t d h)
                       (List.product [1..maxT] (List.product [0..maxD] [0..maxH])) s"
  unfolding OptDec_W_def by (rule fold_product3)

lemma OptDec_W_cell_eq:
  "OptDec_W_cell T ts t d h s =
     s\<lparr>W := (W s)((t, ts, d, h) := W_value T (Wopt s) ts t d h),
       Wnext := (Wnext s)((t, ts, d, h) := W_value T (Wopt s) ts t d h)\<rparr>"
  by (simp add: OptDec_W_cell_def W_value_def Let_def)

lemma OptDec_W_fold:
  "hormone (fold (\<lambda>(t, d, h). OptDec_W_cell T ts t d h) xs s) = hormone s
   \<and> Wopt (fold (\<lambda>(t, d, h). OptDec_W_cell T ts t d h) xs s) = Wopt s
   \<and> V (fold (\<lambda>(t, d, h). OptDec_W_cell T ts t d h) xs s) = V s
   \<and> W (fold (\<lambda>(t, d, h). OptDec_W_cell T ts t d h) xs s) (t', u, d', h')
       = (if u = ts \<and> (t', d', h') \<in> set xs then W_value T (Wopt s) ts t' d' h' else W s (t', u, d', h'))
   \<and> Wnext (fold (\<lambda>(t, d, h). OptDec_W_cell T ts t d h) xs s) (t', u, d', h')
       = (if u = ts \<and> (t', d', h') \<in> set xs then W_value T (Wopt s) ts t' d' h' else Wnext s (t', u, d', h'))"
  by (induction xs arbitrary: s) (auto simp: OptDec_W_cell_eq split: if_splits)

lemma OptDec_W_result:
  "hormone (OptDec_W T ts s) = hormone s"
  "Wopt (OptDec_W T ts s) = Wopt s"
  "V (OptDec_W T ts s) = V s"
  "W (OptDec_W T ts s) (t, u, d, h)
     = (if u = ts \<and> 1 \<le> t \<and> t \<le> maxT \<and> 0 \<le> d \<and> d \<le> maxD \<and> 0 \<le> h \<and> h \<le> maxH
        then W_value T (Wopt s) ts t d h else W s (t, u, d, h))"
  "Wnext (OptDec_W T ts s) (t, u, d, h)
     = (if u = ts \<and> 1 \<le> t \<and> t \<le> maxT \<and> 0 \<le> d \<and> d \<le> maxD \<and> 0 \<le> h \<and> h \<le> maxH
        then W_value T (Wopt s) ts t d h else Wnext s (t, u, d, h))"
  using OptDec_W_fold [of T ts "List.product [1..maxT] (List.product [0..maxD] [0..maxH])" s t u d h]
  by (simp_all add: OptDec_W_flat)

lemma W_value_cong:
  "(\<And>t d. wo (t, ts, d) = wo' (t, ts, d)) \<Longrightarrow> W_value T wo ts t d h = W_value T wo' ts t d h"
  by (simp add: W_value_def)

lemma epoch_done_same:
  assumes "epoch_done T u s" and "same_epoch u s s'"
  shows "epoch_done T u s'"
proof -
  have "W_value T (Wopt s') u t d h = W_value T (Wopt s) u t d h" for t d h
    using assms(2) by (intro W_value_cong) (simp add: same_epoch_def)
  with assms show ?thesis
    by (simp add: epoch_done_def same_epoch_def)
qed

lemma same_epoch_trans: "same_epoch u a b \<Longrightarrow> same_epoch u b c \<Longrightarrow> same_epoch u a c"
  by (simp add: same_epoch_def)

lemma stored_ok_trans: "stored_ok a b \<Longrightarrow> stored_ok b c \<Longrightarrow> stored_ok a c"
  unfolding stored_ok_def by metis

lemma OptDec_ts_result:
  "\<exists>s'. OptDec_ts T ts s = Some s' \<and> V s' = V s \<and> (\<forall>u. u \<noteq> ts \<longrightarrow> same_epoch u s s')
        \<and> stored_ok s s' \<and> epoch_done T ts s'"
proof -
  obtain s1 where s1: "OptDec_search ts s = Some s1"
    and same: "W s1 = W s" "Wnext s1 = Wnext s" "V s1 = V s"
    and frame: "\<forall>t u d. u \<noteq> ts \<longrightarrow> hormone s1 (t, u, d) = hormone s (t, u, d)
                          \<and> Wopt s1 (t, u, d) = Wopt s (t, u, d)"
    and stored: "\<forall>i. hormone s1 i = hormone s i \<or> (0 \<le> hormone s1 i \<and> hormone s1 i \<le> maxH)"
    and rng: "\<forall>t d. 0 \<le> t \<and> t \<le> maxT \<and> 0 \<le> d \<and> d \<le> maxD
              \<longrightarrow> 0 \<le> hormone s1 (t, ts, d) \<and> hormone s1 (t, ts, d) \<le> maxH"
    using OptDec_search_result [of ts s] by blast
  let ?s' = "OptDec_W T ts s1"
  have 1: "OptDec_ts T ts s = Some ?s'"
    by (simp add: OptDec_ts_def s1)
  have 2: "V ?s' = V s"
    by (simp add: OptDec_W_result same)
  have 3: "\<forall>u. u \<noteq> ts \<longrightarrow> same_epoch u s ?s'"
    using frame by (simp add: same_epoch_def OptDec_W_result same)
  have 4: "stored_ok s ?s'"
    using stored by (simp add: stored_ok_def OptDec_W_result)
  have 5: "epoch_done T ts ?s'"
    using rng by (simp add: epoch_done_def OptDec_W_result)
  from 1 2 3 4 5 show ?thesis by blast
qed

lemma OptDec_epochs:
  "distinct us \<Longrightarrow>
     \<exists>s'. ofold (OptDec_ts T) us s = Some s' \<and> V s' = V s
        \<and> (\<forall>u. u \<notin> set us \<longrightarrow> same_epoch u s s')
        \<and> stored_ok s s' \<and> (\<forall>u. u \<in> set us \<longrightarrow> epoch_done T u s')"
proof (induction us arbitrary: s)
  case Nil
  show ?case by (simp add: same_epoch_def stored_ok_def)
next
  case (Cons u us)
  obtain s1 where s1: "OptDec_ts T u s = Some s1" "V s1 = V s"
    and frame1: "\<forall>w. w \<noteq> u \<longrightarrow> same_epoch w s s1"
    and stored1: "stored_ok s s1" and done1: "epoch_done T u s1"
    using OptDec_ts_result [of T u s] by blast
  from Cons.prems have dist: "distinct us" and notin: "u \<notin> set us" by simp_all
  from Cons.IH [OF dist, of s1] obtain s' where
    s': "ofold (OptDec_ts T) us s1 = Some s'" "V s' = V s1"
    and frame: "\<forall>w. w \<notin> set us \<longrightarrow> same_epoch w s1 s'"
    and stored: "stored_ok s1 s'" and done': "\<forall>w. w \<in> set us \<longrightarrow> epoch_done T w s'"
    by blast
  have 1: "ofold (OptDec_ts T) (u # us) s = Some s'"
    using s1 s' by simp
  have 2: "V s' = V s" using s1 s' by simp
  have 3: "\<forall>w. w \<notin> set (u # us) \<longrightarrow> same_epoch w s s'"
    using frame1 frame by (auto intro: same_epoch_trans)
  have 4: "stored_ok s s'"
    using stored1 stored by (rule stored_ok_trans)
  have "epoch_done T u s'"
    using done1 frame notin by (auto intro: epoch_done_same)
  with done' have 5: "\<forall>w. w \<in> set (u # us) \<longrightarrow> epoch_done T w s'"
    by auto
  from 1 2 3 4 5 show ?case by blast
qed

lemma OptDec_result:
  "\<exists>s'. OptDec T s = Some s' \<and> V s' = V s \<and> stored_ok s s'
        \<and> (\<forall>u. 0 \<le> u \<and> u \<le> maxTs - 1 \<longrightarrow> epoch_done T u s')
        \<and> (\<forall>u. u < 0 \<or> maxTs - 1 < u \<longrightarrow> same_epoch u s s')"
proof -
  have "distinct (rev [0..maxTs - 1])" by simp
  from OptDec_epochs [OF this, of T s] show ?thesis
    unfolding OptDec_def by (auto simp: not_le)
qed

lemma ReplaceFit_cell_hormone:
  "\<exists>a1 s1. ReplaceFit_cell t d h (a, s) = (a1, s1)
     \<and> hormone s1 = (hormone s)((t, maxTs, d) := hormone s (t, 0, d))"
  by (simp add: ReplaceFit_cell_def)

lemma ReplaceFit_fold_hormone:
  "hormone (snd (fold (\<lambda>(t, d, h). ReplaceFit_cell t d h) xs (a, s))) (t', u, d')
     = (if u = maxTs \<and> (\<exists>h. (t', d', h) \<in> set xs) then hormone s (t', 0, d')
        else hormone s (t', u, d'))"
proof (induction xs arbitrary: a s)
  case Nil
  show ?case by simp
next
  case (Cons x xs)
  obtain t d h where x: "x = (t, d, h)" by (cases x)
  obtain a1 s1 where cell: "ReplaceFit_cell t d h (a, s) = (a1, s1)"
    and h1: "hormone s1 = (hormone s)((t, maxTs, d) := hormone s (t, 0, d))"
    using ReplaceFit_cell_hormone by blast
  have "hormone (snd (fold (\<lambda>(t, d, h). ReplaceFit_cell t d h) (x # xs) (a, s))) (t', u, d')
      = hormone (snd (fold (\<lambda>(t, d, h). ReplaceFit_cell t d h) xs (a1, s1))) (t', u, d')"
    by (simp add: x cell)
  also have "\<dots> = (if u = maxTs \<and> (\<exists>h. (t', d', h) \<in> set xs) then hormone s1 (t', 0, d')
        else hormone s1 (t', u, d'))"
    by (rule Cons.IH)
  also have "\<dots> = (if u = maxTs \<and> (\<exists>h. (t', d', h) \<in> set (x # xs)) then hormone s (t', 0, d')
        else hormone s (t', u, d'))"
    by (auto simp: h1 x maxTs_def)
  finally show ?case .
qed

lemma ReplaceFit_hormone:
  "hormone (ReplaceFit s) (t, u, d)
     = (if u = maxTs \<and> 1 \<le> t \<and> t \<le> maxT \<and> 0 \<le> d \<and> d \<le> maxD then hormone s (t, 0, d)
        else hormone s (t, u, d))"
proof -
  let ?xs = "List.product [1..maxT] (List.product [0..maxD] [0..maxH])"
  have "hormone (ReplaceFit s) = hormone (snd (fold (\<lambda>(t, d, h). ReplaceFit_cell t d h) ?xs (0, s)))"
    unfolding ReplaceFit_def fold_product3 by (simp add: split_def Let_def)
  moreover have "(\<exists>h. (t, d, h) \<in> set ?xs) \<longleftrightarrow> 1 \<le> t \<and> t \<le> maxT \<and> 0 \<le> d \<and> d \<le> maxD"
    by (auto simp: maxH_def)
  ultimately show ?thesis
    by (simp add: ReplaceFit_fold_hormone)
qed

section \<open>The fitness step\<close>

lemma Damage_at:
  "Damage dn0 (d, h) =
     (if 0 \<le> d \<and> d \<le> maxD \<and> 0 \<le> h \<and> h \<le> maxH
      then max 0 (min (real_of_int maxD)
             (real_of_int d
                + hslope * (hmin - real_of_int h / real_of_int maxH)
                         * (hmin - real_of_int h / real_of_int maxH)
                - real_of_int repair))
      else dn0 (d, h))"
proof -
  let ?g = "\<lambda>i. max 0 (min (real_of_int maxD)
             (real_of_int (fst i)
                + hslope * (hmin - real_of_int (snd i) / real_of_int maxH)
                         * (hmin - real_of_int (snd i) / real_of_int maxH)
                - real_of_int repair))"
  have "Damage dn0 = fold (\<lambda>(d, h) dn. dn((d, h) := ?g (d, h))) (List.product [0..maxD] [0..maxH]) dn0"
    unfolding Damage_def by (simp add: fold_product)
  moreover have "(\<lambda>(d, h) dn. dn((d, h) := ?g (d, h))) = (\<lambda>i dn. dn(i := ?g i))"
    by (auto simp: fun_eq_iff)
  ultimately show ?thesis
    by (simp add: fold_assign)
qed

lemma tables_example_values:
  "pPred tables_example 1 = 1 / 2"
  "pAttack tables_example = 1 / 2"
  "pKilled tables_example 0 = 1"
  "pKilled tables_example 500 = 0"
  "mu tables_example 0 = 1 / 500"
  "repro tables_example (0, 0) = 1"
  "dnew tables_example (0, 0) = 4 / 5"
  "dnew tables_example (0, 500) = 44 / 5"
  by (simp_all add: tables_example_def PredProb_first Mortality_at Reproduction_at Damage_at
      mu_init_def mu0_def hmin_def hslope_def repair_def maxD_def maxH_def maxTs_def power2_eq_square)

text \<open>
  C1 (as amended). For every \<open>t\<close> in \<open>[1, maxT]\<close>, \<open>ts\<close> in \<open>[0, maxTs-1]\<close>, \<open>d\<close> in \<open>[0, maxD]\<close>
  and \<open>h\<close> in \<open>[0, maxH]\<close>, \<^verbatim>\<open>OptDec\<close> returns and leaves in \<open>W[t][ts][d][h]\<close> the sum of a
  survived-attack branch weighted by \<open>pPred[t]*pAttack*(1-pKilled[h])\<close> and a no-attack
  branch weighted by \<open>1 - pPred[t]*pAttack\<close>; each branch's value is \<open>(1-mu[d])\<close> times
  \<open>repro[ts][d]\<close> plus the damage-interpolated \<^verbatim>\<open>Wopt\<close> value, with the \<^verbatim>\<open>Wopt\<close> row indexed
  at \<open>0\<close> for the survived-attack branch and at \<open>t\<close> for the no-attack branch; and
  \<open>Wnext[t][ts][d][h]\<close> holds the same value.
\<close>

theorem OptDec_W_formula:
  "\<exists>s'. OptDec T s = Some s'
     \<and> (\<forall>t ts d h. 1 \<le> t \<and> t \<le> maxT \<and> 0 \<le> ts \<and> ts \<le> maxTs - 1
                  \<and> 0 \<le> d \<and> d \<le> maxD \<and> 0 \<le> h \<and> h \<le> maxH \<longrightarrow>
          W s' (t, ts, d, h) =
            pPred T t * pAttack T * (1 - pKilled T h) * (1 - mu T d)
              * (repro T (ts, d)
                 + (1 - (dnew T (d, h) - real_of_int \<lfloor>dnew T (d, h)\<rfloor>)) * Wopt s' (0, ts, \<lfloor>dnew T (d, h)\<rfloor>)
                 + (dnew T (d, h) - real_of_int \<lfloor>dnew T (d, h)\<rfloor>) * Wopt s' (0, ts, \<lceil>dnew T (d, h)\<rceil>))
            + (1 - pPred T t * pAttack T) * (1 - mu T d)
              * (repro T (ts, d)
                 + (1 - (dnew T (d, h) - real_of_int \<lfloor>dnew T (d, h)\<rfloor>)) * Wopt s' (t, ts, \<lfloor>dnew T (d, h)\<rfloor>)
                 + (dnew T (d, h) - real_of_int \<lfloor>dnew T (d, h)\<rfloor>) * Wopt s' (t, ts, \<lceil>dnew T (d, h)\<rceil>))
          \<and> Wnext s' (t, ts, d, h) = W s' (t, ts, d, h))"
proof -
  obtain s' where s': "OptDec T s = Some s'"
    and ep: "\<forall>u. 0 \<le> u \<and> u \<le> maxTs - 1 \<longrightarrow> epoch_done T u s'"
    using OptDec_result [of T s] by blast
  show ?thesis
  proof (intro exI [of _ s'] conjI allI impI)
    show "OptDec T s = Some s'" by (rule s')
  next
    fix t ts d h
    assume r: "1 \<le> t \<and> t \<le> maxT \<and> 0 \<le> ts \<and> ts \<le> maxTs - 1
                  \<and> 0 \<le> d \<and> d \<le> maxD \<and> 0 \<le> h \<and> h \<le> maxH"
    then have "epoch_done T ts s'" using ep by simp
    with r have w: "W s' (t, ts, d, h) = W_value T (Wopt s') ts t d h"
      and n: "Wnext s' (t, ts, d, h) = W s' (t, ts, d, h)"
      by (simp_all add: epoch_done_def)
    from w show "W s' (t, ts, d, h) =
            pPred T t * pAttack T * (1 - pKilled T h) * (1 - mu T d)
              * (repro T (ts, d)
                 + (1 - (dnew T (d, h) - real_of_int \<lfloor>dnew T (d, h)\<rfloor>)) * Wopt s' (0, ts, \<lfloor>dnew T (d, h)\<rfloor>)
                 + (dnew T (d, h) - real_of_int \<lfloor>dnew T (d, h)\<rfloor>) * Wopt s' (0, ts, \<lceil>dnew T (d, h)\<rceil>))
            + (1 - pPred T t * pAttack T) * (1 - mu T d)
              * (repro T (ts, d)
                 + (1 - (dnew T (d, h) - real_of_int \<lfloor>dnew T (d, h)\<rfloor>)) * Wopt s' (t, ts, \<lfloor>dnew T (d, h)\<rfloor>)
                 + (dnew T (d, h) - real_of_int \<lfloor>dnew T (d, h)\<rfloor>) * Wopt s' (t, ts, \<lceil>dnew T (d, h)\<rceil>))"
      by (simp add: W_value_def Let_def)
    from n show "Wnext s' (t, ts, d, h) = W s' (t, ts, d, h)" .
  qed
qed

theorem OptDec_W_formula_witness:
  "\<exists>s'. OptDec tables_example sdp_init = Some s'
     \<and> W s' (1, 0, 0, 0) =
            pPred tables_example 1 * pAttack tables_example * (1 - pKilled tables_example 0)
              * (1 - mu tables_example 0)
              * (repro tables_example (0, 0)
                 + (1 - (dnew tables_example (0, 0) - real_of_int \<lfloor>dnew tables_example (0, 0)\<rfloor>))
                     * Wopt s' (0, 0, \<lfloor>dnew tables_example (0, 0)\<rfloor>)
                 + (dnew tables_example (0, 0) - real_of_int \<lfloor>dnew tables_example (0, 0)\<rfloor>)
                     * Wopt s' (0, 0, \<lceil>dnew tables_example (0, 0)\<rceil>))
            + (1 - pPred tables_example 1 * pAttack tables_example) * (1 - mu tables_example 0)
              * (repro tables_example (0, 0)
                 + (1 - (dnew tables_example (0, 0) - real_of_int \<lfloor>dnew tables_example (0, 0)\<rfloor>))
                     * Wopt s' (1, 0, \<lfloor>dnew tables_example (0, 0)\<rfloor>)
                 + (dnew tables_example (0, 0) - real_of_int \<lfloor>dnew tables_example (0, 0)\<rfloor>)
                     * Wopt s' (1, 0, \<lceil>dnew tables_example (0, 0)\<rceil>))
     \<and> Wnext s' (1, 0, 0, 0) = W s' (1, 0, 0, 0)"
proof -
  have r: "(1::int) \<le> 1 \<and> 1 \<le> maxT \<and> (0::int) \<le> 0 \<and> 0 \<le> maxTs - 1
             \<and> (0::int) \<le> 0 \<and> 0 \<le> maxD \<and> (0::int) \<le> 0 \<and> 0 \<le> maxH"
    by (simp add: maxT_def maxTs_def maxD_def maxH_def)
  from OptDec_W_formula [of tables_example sdp_init] obtain s' where
    s': "OptDec tables_example sdp_init = Some s'"
    and all: "\<And>t ts d h. 1 \<le> t \<and> t \<le> maxT \<and> 0 \<le> ts \<and> ts \<le> maxTs - 1
                  \<and> 0 \<le> d \<and> d \<le> maxD \<and> 0 \<le> h \<and> h \<le> maxH \<Longrightarrow>
          W s' (t, ts, d, h) =
            pPred tables_example t * pAttack tables_example * (1 - pKilled tables_example h)
              * (1 - mu tables_example d)
              * (repro tables_example (ts, d)
                 + (1 - (dnew tables_example (d, h) - real_of_int \<lfloor>dnew tables_example (d, h)\<rfloor>))
                     * Wopt s' (0, ts, \<lfloor>dnew tables_example (d, h)\<rfloor>)
                 + (dnew tables_example (d, h) - real_of_int \<lfloor>dnew tables_example (d, h)\<rfloor>)
                     * Wopt s' (0, ts, \<lceil>dnew tables_example (d, h)\<rceil>))
            + (1 - pPred tables_example t * pAttack tables_example) * (1 - mu tables_example d)
              * (repro tables_example (ts, d)
                 + (1 - (dnew tables_example (d, h) - real_of_int \<lfloor>dnew tables_example (d, h)\<rfloor>))
                     * Wopt s' (t, ts, \<lfloor>dnew tables_example (d, h)\<rfloor>)
                 + (dnew tables_example (d, h) - real_of_int \<lfloor>dnew tables_example (d, h)\<rfloor>)
                     * Wopt s' (t, ts, \<lceil>dnew tables_example (d, h)\<rceil>))
          \<and> Wnext s' (t, ts, d, h) = W s' (t, ts, d, h)"
    by blast
  from s' all [OF r] show ?thesis
    by (intro exI [of _ s'] conjI) blast+
qed

text \<open>
  C1 as stated fails twice. With \<open>pKilled[0] = 1\<close> the survived-attack weight is \<open>0\<close>, its
  complement is \<open>1\<close>, but the program weights the no-attack branch by
  \<open>1 - pPred[1]*pAttack = 3/4\<close>. With \<open>pKilled[500] = 0\<close> the weights agree, but the program
  reads the \<^verbatim>\<open>Wopt\<close> row \<open>t = 1\<close>, not row \<open>min(maxT, t+1) = 2\<close>.
\<close>

theorem OptDec_W_as_stated_counterexample:
  "W (OptDec_W tables_example 0 sdp_init) (1, 0, 0, 0) = 1497 / 2000
   \<and> W_as_stated tables_example (Wopt sdp_init) 0 1 0 0 = 499 / 500
   \<and> W (OptDec_W tables_example 0 sdp_rows) (1, 0, 0, 500) = 3493 / 2000
   \<and> W_as_stated tables_example (Wopt sdp_rows) 0 1 0 500 = 499 / 200"
proof -
  have a: "W (OptDec_W tables_example 0 sdp_init) (1, 0, 0, 0) = 1497 / 2000"
    by (simp add: OptDec_W_result W_value_def tables_example_values sdp_init_def
        maxT_def maxD_def maxH_def)
  have b: "W_as_stated tables_example (Wopt sdp_init) 0 1 0 0 = 499 / 500"
    by (simp add: W_as_stated_def tables_example_values sdp_init_def)
  have c: "W (OptDec_W tables_example 0 sdp_rows) (1, 0, 0, 500) = 3493 / 2000"
    by (simp add: OptDec_W_result W_value_def tables_example_values sdp_rows_def sdp_init_def
        maxT_def maxD_def maxH_def)
  have d: "W_as_stated tables_example (Wopt sdp_rows) 0 1 0 500 = 499 / 200"
    by (simp add: W_as_stated_def tables_example_values sdp_rows_def sdp_init_def maxT_def)
  from a b c d show ?thesis by simp
qed

section \<open>The policy stays in the lattice\<close>

text \<open>
  C10. \<^verbatim>\<open>OptDec\<close> returns, every entry \<open>hormone[t][ts][d]\<close> of its lattice (\<open>ts < maxTs\<close>) is
  in \<open>[0, maxH]\<close> afterwards, every entry of \<^verbatim>\<open>hormone\<close> it changed is in \<open>[0, maxH]\<close>, and
  the copies \<open>hormone[t][maxTs][d] = hormone[t][0][d]\<close> made by \<^verbatim>\<open>ReplaceFit\<close> are in
  \<open>[0, maxH]\<close> as well.
\<close>

theorem hormone_in_lattice:
  "\<exists>s'. OptDec T s = Some s'
     \<and> (\<forall>t ts d. 0 \<le> t \<and> t \<le> maxT \<and> 0 \<le> ts \<and> ts \<le> maxTs - 1 \<and> 0 \<le> d \<and> d \<le> maxD
          \<longrightarrow> 0 \<le> hormone s' (t, ts, d) \<and> hormone s' (t, ts, d) \<le> maxH)
     \<and> (\<forall>i. hormone s' i = hormone s i \<or> (0 \<le> hormone s' i \<and> hormone s' i \<le> maxH))
     \<and> (\<forall>t d. 1 \<le> t \<and> t \<le> maxT \<and> 0 \<le> d \<and> d \<le> maxD
          \<longrightarrow> hormone (ReplaceFit s') (t, maxTs, d) = hormone s' (t, 0, d)
              \<and> 0 \<le> hormone (ReplaceFit s') (t, maxTs, d)
              \<and> hormone (ReplaceFit s') (t, maxTs, d) \<le> maxH)
     \<and> (\<forall>i. hormone (ReplaceFit s') i = hormone s i
              \<or> (0 \<le> hormone (ReplaceFit s') i \<and> hormone (ReplaceFit s') i \<le> maxH))"
proof -
  obtain s' where s': "OptDec T s = Some s'"
    and st: "stored_ok s s'"
    and ep: "\<forall>u. 0 \<le> u \<and> u \<le> maxTs - 1 \<longrightarrow> epoch_done T u s'"
    using OptDec_result [of T s] by blast
  have rng: "0 \<le> hormone s' (t, ts, d) \<and> hormone s' (t, ts, d) \<le> maxH"
    if "0 \<le> t \<and> t \<le> maxT \<and> 0 \<le> ts \<and> ts \<le> maxTs - 1 \<and> 0 \<le> d \<and> d \<le> maxD" for t ts d
    using ep that by (simp add: epoch_done_def)
  have old: "hormone s' i = hormone s i \<or> (0 \<le> hormone s' i \<and> hormone s' i \<le> maxH)" for i
    using st unfolding stored_ok_def by blast
  have copy: "hormone (ReplaceFit s') (t, maxTs, d) = hormone s' (t, 0, d)
              \<and> 0 \<le> hormone (ReplaceFit s') (t, maxTs, d)
              \<and> hormone (ReplaceFit s') (t, maxTs, d) \<le> maxH"
    if "1 \<le> t \<and> t \<le> maxT \<and> 0 \<le> d \<and> d \<le> maxD" for t d
    using that rng [of t 0 d] by (simp add: ReplaceFit_hormone maxTs_def)
  have all: "hormone (ReplaceFit s') i = hormone s i
              \<or> (0 \<le> hormone (ReplaceFit s') i \<and> hormone (ReplaceFit s') i \<le> maxH)" for i
  proof -
    obtain t u d where i: "i = (t, u, d)" by (cases i)
    show ?thesis
    proof (cases "u = maxTs \<and> 1 \<le> t \<and> t \<le> maxT \<and> 0 \<le> d \<and> d \<le> maxD")
      case True
      with copy [of t d] show ?thesis by (simp add: i)
    next
      case False
      have "hormone (ReplaceFit s') (t, u, d) = hormone s' (t, u, d)"
        unfolding ReplaceFit_hormone using False by (simp only: if_False)
      with old [of i] show ?thesis by (simp add: i)
    qed
  qed
  from s' rng old copy all show ?thesis by blast
qed

theorem hormone_in_lattice_witness:
  "\<exists>s'. OptDec tables_example sdp_init = Some s'
     \<and> 0 \<le> hormone s' (0, 0, 0) \<and> hormone s' (0, 0, 0) \<le> maxH
     \<and> 0 \<le> hormone (ReplaceFit s') (1, maxTs, 0) \<and> hormone (ReplaceFit s') (1, maxTs, 0) \<le> maxH"
proof -
  from hormone_in_lattice [of tables_example sdp_init] obtain s' where
    s': "OptDec tables_example sdp_init = Some s'"
    and a: "\<forall>t ts d. 0 \<le> t \<and> t \<le> maxT \<and> 0 \<le> ts \<and> ts \<le> maxTs - 1 \<and> 0 \<le> d \<and> d \<le> maxD
          \<longrightarrow> 0 \<le> hormone s' (t, ts, d) \<and> hormone s' (t, ts, d) \<le> maxH"
    and b: "\<forall>t d. 1 \<le> t \<and> t \<le> maxT \<and> 0 \<le> d \<and> d \<le> maxD
          \<longrightarrow> hormone (ReplaceFit s') (t, maxTs, d) = hormone s' (t, 0, d)
              \<and> 0 \<le> hormone (ReplaceFit s') (t, maxTs, d)
              \<and> hormone (ReplaceFit s') (t, maxTs, d) \<le> maxH"
    by blast
  have "0 \<le> hormone s' (0, 0, 0) \<and> hormone s' (0, 0, 0) \<le> maxH"
    using a [rule_format, of 0 0 0] by (simp add: maxT_def maxTs_def maxD_def)
  moreover have "0 \<le> hormone (ReplaceFit s') (1, maxTs, 0) \<and> hormone (ReplaceFit s') (1, maxTs, 0) \<le> maxH"
    using b [rule_format, of 1 0] by (simp add: maxT_def maxD_def)
  ultimately show ?thesis using s' by blast
qed

section \<open>The fitness stored with the policy\<close>

text \<open>
  C2. The search returns and its index is within one lattice unit of the peak of a
  strictly unimodal row (\<open>golden_section_within_one\<close>), but the value stored in \<^verbatim>\<open>Wopt\<close> is
  not always the \<^verbatim>\<open>Wnext\<close> value at the recorded index: \<^verbatim>\<open>fitness_x1\<close> is the fitness at the
  \<^verbatim>\<open>x1\<close> of the start of the last pass. On every strictly increasing row the recorded
  index is \<open>499\<close> and the stored value is the fitness at \<open>498\<close>, which is smaller.
\<close>

theorem OptDec_search_stale_fitness:
  assumes up: "\<And>x y. 0 \<le> x \<Longrightarrow> x < y \<Longrightarrow> y \<le> maxH \<Longrightarrow>
       Wnext s (min maxT (t + 1), ts + 1, d, x) < Wnext s (min maxT (t + 1), ts + 1, d, y)"
  shows "\<exists>s'. OptDec_search_cell ts t d s = Some s'
     \<and> hormone s' (t, ts, d) = 499
     \<and> Wopt s' (t, ts, d) = Wnext s (min maxT (t + 1), ts + 1, d, 498)
     \<and> Wopt s' (t, ts, d) < Wnext s (min maxT (t + 1), ts + 1, d, hormone s' (t, ts, d))"
proof -
  let ?f = "\<lambda>h. Wnext s (min maxT (t + 1), ts + 1, d, h)"
  have "golden_section ?f = Some (499, Some (?f 498))"
    using up by (intro golden_section_increasing) simp_all
  moreover have "?f 498 < ?f 499"
    by (rule up) (simp_all add: maxH_def)
  ultimately show ?thesis
    by (simp add: OptDec_search_cell_def)
qed

theorem OptDec_search_stale_fitness_witness:
  "\<exists>s'. OptDec_search_cell 8 1 0 sdp_increasing = Some s'
     \<and> hormone s' (1, 8, 0) = 499
     \<and> Wopt s' (1, 8, 0) = Wnext sdp_increasing (min maxT (1 + 1), 8 + 1, 0, 498)
     \<and> Wopt s' (1, 8, 0) < Wnext sdp_increasing (min maxT (1 + 1), 8 + 1, 0, hormone s' (1, 8, 0))"
proof -
  have "Wnext sdp_increasing (min maxT (1 + 1), 8 + 1, 0, x)
      < Wnext sdp_increasing (min maxT (1 + 1), 8 + 1, 0, y)"
    if "0 \<le> x" "x < y" "y \<le> maxH" for x y
    using that by (simp add: sdp_increasing_def)
  then show ?thesis
    by (rule OptDec_search_stale_fitness)
qed

section \<open>Forward calculation: one cell of the sweep\<close>

lemma sum_upd_add:
  fixes f :: "'a \<Rightarrow> real"
  assumes "finite S" and "i \<in> S"
  shows "(\<Sum>j\<in>S. (f(i := f i + w)) j) = (\<Sum>j\<in>S. f j) + w"
proof -
  have "(\<Sum>j\<in>S. (f(i := f i + w)) j) = (f i + w) + (\<Sum>j\<in>S - {i}. (f(i := f i + w)) j)"
    using assms by (simp add: sum.remove)
  also have "(\<Sum>j\<in>S - {i}. (f(i := f i + w)) j) = (\<Sum>j\<in>S - {i}. f j)"
    by (intro sum.cong) simp_all
  also have "(f i + w) + (\<Sum>j\<in>S - {i}. f j) = (\<Sum>j\<in>S. f j) + w"
    using assms by (simp add: sum.remove)
  finally show ?thesis .
qed

lemma fwdCalc_cell_explicit:
  fixes T hm t ts d h s
  defines "v \<equiv> F s (t, ts, d, h)"
    and "d1 \<equiv> \<lfloor>dnew T (d, h)\<rfloor>" and "d2 \<equiv> \<lceil>dnew T (d, h)\<rceil>"
  defines "ddec \<equiv> dnew T (d, h) - real_of_int d1"
    and "i1 \<equiv> (1, ts + 1, d1, hm (0, ts, d1))"
    and "i2 \<equiv> (1, ts + 1, d2, hm (0, ts, d2))"
    and "i3 \<equiv> (min (maxT - 1) (t + 1), ts + 1, d1, hm (min (maxT - 1) (t + 1), ts, d1))"
    and "i4 \<equiv> (min (maxT - 1) (t + 1), ts + 1, d2, hm (min (maxT - 1) (t + 1), ts, d2))"
  defines "F1 \<equiv> (F s)(i1 := F s i1 + v * pPred T t * pAttack T * (1 - pKilled T h) * (1 - mu T d) * (1 - ddec))"
  defines "F2 \<equiv> F1(i2 := F1 i2 + v * pPred T t * pAttack T * (1 - pKilled T h) * (1 - mu T d) * ddec)"
  defines "F3 \<equiv> F2(i3 := F2 i3 + v * (1 - pPred T t * pAttack T) * (1 - mu T d) * (1 - ddec))"
  defines "F4 \<equiv> F3(i4 := F3 i4 + v * (1 - pPred T t * pAttack T) * (1 - mu T d) * ddec)"
  shows "fwdCalc_cell T hm t ts d h s =
     s\<lparr>F := F4,
       predDeaths := predDeaths s + v * pPred T t * pAttack T * pKilled T h,
       damageDeaths := damageDeaths s + v * (1 - pPred T t * pAttack T * pKilled T h) * (mu T d - mu T 0),
       bkgrndDeaths := bkgrndDeaths s + v * (1 - pPred T t * pAttack T * pKilled T h) * mu T 0\<rparr>"
  unfolding fwdCalc_cell_def Let_def F4_def F3_def F2_def F1_def i1_def i2_def i3_def i4_def
    ddec_def d1_def d2_def v_def
  by simp

text \<open>
  C8. One cell of the sweep conserves mass: over any finite index set that holds the four
  target cells, the frequencies gained (attack and no-attack, each split over the two
  damage targets with weights \<open>1-ddec\<close> and \<open>ddec\<close>) plus the three death contributions sum
  to exactly \<open>1\<close> times the source mass \<open>F[t][ts][d][h]\<close>, for any values of the tables.
\<close>

theorem fwdCalc_cell_conserves:
  assumes fin: "finite S"
    and i1: "(1, ts + 1, \<lfloor>dnew T (d, h)\<rfloor>, hm (0, ts, \<lfloor>dnew T (d, h)\<rfloor>)) \<in> S"
    and i2: "(1, ts + 1, \<lceil>dnew T (d, h)\<rceil>, hm (0, ts, \<lceil>dnew T (d, h)\<rceil>)) \<in> S"
    and i3: "(min (maxT - 1) (t + 1), ts + 1, \<lfloor>dnew T (d, h)\<rfloor>,
              hm (min (maxT - 1) (t + 1), ts, \<lfloor>dnew T (d, h)\<rfloor>)) \<in> S"
    and i4: "(min (maxT - 1) (t + 1), ts + 1, \<lceil>dnew T (d, h)\<rceil>,
              hm (min (maxT - 1) (t + 1), ts, \<lceil>dnew T (d, h)\<rceil>)) \<in> S"
  shows "(\<Sum>i\<in>S. F (fwdCalc_cell T hm t ts d h s) i)
           + predDeaths (fwdCalc_cell T hm t ts d h s)
           + damageDeaths (fwdCalc_cell T hm t ts d h s)
           + bkgrndDeaths (fwdCalc_cell T hm t ts d h s)
       = (\<Sum>i\<in>S. F s i) + predDeaths s + damageDeaths s + bkgrndDeaths s
           + 1 * F s (t, ts, d, h)"
proof -
  let ?v = "F s (t, ts, d, h)"
  let ?d1 = "\<lfloor>dnew T (d, h)\<rfloor>" and ?d2 = "\<lceil>dnew T (d, h)\<rceil>"
  let ?ddec = "dnew T (d, h) - real_of_int ?d1"
  let ?i1 = "(1, ts + 1, ?d1, hm (0, ts, ?d1))"
  let ?i2 = "(1, ts + 1, ?d2, hm (0, ts, ?d2))"
  let ?i3 = "(min (maxT - 1) (t + 1), ts + 1, ?d1, hm (min (maxT - 1) (t + 1), ts, ?d1))"
  let ?i4 = "(min (maxT - 1) (t + 1), ts + 1, ?d2, hm (min (maxT - 1) (t + 1), ts, ?d2))"
  let ?w1 = "?v * pPred T t * pAttack T * (1 - pKilled T h) * (1 - mu T d) * (1 - ?ddec)"
  let ?w2 = "?v * pPred T t * pAttack T * (1 - pKilled T h) * (1 - mu T d) * ?ddec"
  let ?w3 = "?v * (1 - pPred T t * pAttack T) * (1 - mu T d) * (1 - ?ddec)"
  let ?w4 = "?v * (1 - pPred T t * pAttack T) * (1 - mu T d) * ?ddec"
  let ?F1 = "(F s)(?i1 := F s ?i1 + ?w1)"
  let ?F2 = "?F1(?i2 := ?F1 ?i2 + ?w2)"
  let ?F3 = "?F2(?i3 := ?F2 ?i3 + ?w3)"
  let ?F4 = "?F3(?i4 := ?F3 ?i4 + ?w4)"
  let ?s' = "fwdCalc_cell T hm t ts d h s"
  have cell: "?s' =
     s\<lparr>F := ?F4,
       predDeaths := predDeaths s + ?v * pPred T t * pAttack T * pKilled T h,
       damageDeaths := damageDeaths s + ?v * (1 - pPred T t * pAttack T * pKilled T h) * (mu T d - mu T 0),
       bkgrndDeaths := bkgrndDeaths s + ?v * (1 - pPred T t * pAttack T * pKilled T h) * mu T 0\<rparr>"
    by (rule fwdCalc_cell_explicit)
  have s1: "sum ?F1 S = sum (F s) S + ?w1"
    by (rule sum_upd_add [OF fin i1])
  have s2: "sum ?F2 S = sum ?F1 S + ?w2"
    by (rule sum_upd_add [OF fin i2])
  have s3: "sum ?F3 S = sum ?F2 S + ?w3"
    by (rule sum_upd_add [OF fin i3])
  have s4: "sum ?F4 S = sum ?F3 S + ?w4"
    by (rule sum_upd_add [OF fin i4])
  have flow: "sum ?F4 S = sum (F s) S + (?w1 + ?w2 + ?w3 + ?w4)"
    by (simp only: s1 s2 s3 s4 add.assoc)
  have weights: "?w1 + ?w2 + ?w3 + ?w4
      + ?v * pPred T t * pAttack T * pKilled T h
      + ?v * (1 - pPred T t * pAttack T * pKilled T h) * (mu T d - mu T 0)
      + ?v * (1 - pPred T t * pAttack T * pKilled T h) * mu T 0 = ?v"
    by (simp add: algebra_simps)
  have "sum (F ?s') S + predDeaths ?s' + damageDeaths ?s' + bkgrndDeaths ?s'
      = sum ?F4 S
        + (predDeaths s + ?v * pPred T t * pAttack T * pKilled T h)
        + (damageDeaths s + ?v * (1 - pPred T t * pAttack T * pKilled T h) * (mu T d - mu T 0))
        + (bkgrndDeaths s + ?v * (1 - pPred T t * pAttack T * pKilled T h) * mu T 0)"
    by (subst (1 2 3 4) cell) simp
  also have "\<dots> = sum (F s) S + predDeaths s + damageDeaths s + bkgrndDeaths s
      + (?w1 + ?w2 + ?w3 + ?w4
      + ?v * pPred T t * pAttack T * pKilled T h
      + ?v * (1 - pPred T t * pAttack T * pKilled T h) * (mu T d - mu T 0)
      + ?v * (1 - pPred T t * pAttack T * pKilled T h) * mu T 0)"
    by (simp only: flow add.assoc)
  also have "\<dots> = sum (F s) S + predDeaths s + damageDeaths s + bkgrndDeaths s + 1 * ?v"
    by (simp add: weights)
  finally show ?thesis .
qed

theorem fwdCalc_cell_conserves_witness:
  "(\<Sum>i\<in>{(1, 1, 0, 0), (1, 1, 1, 0), (99, 1, 0, 0), (99, 1, 1, 0)}.
        F (fwdCalc_cell tables_example (hormone sdp_init) 100 0 0 0 fwdCalc_init) i)
     + predDeaths (fwdCalc_cell tables_example (hormone sdp_init) 100 0 0 0 fwdCalc_init)
     + damageDeaths (fwdCalc_cell tables_example (hormone sdp_init) 100 0 0 0 fwdCalc_init)
     + bkgrndDeaths (fwdCalc_cell tables_example (hormone sdp_init) 100 0 0 0 fwdCalc_init)
   = (\<Sum>i\<in>{(1, 1, 0, 0), (1, 1, 1, 0), (99, 1, 0, 0), (99, 1, 1, 0)}. F fwdCalc_init i)
     + predDeaths fwdCalc_init + damageDeaths fwdCalc_init + bkgrndDeaths fwdCalc_init
     + 1 * F fwdCalc_init (100, 0, 0, 0)"
  by (rule fwdCalc_cell_conserves)
    (simp_all add: tables_example_values sdp_init_def maxT_def)

section \<open>Forward calculation: the first season boundary\<close>

lemma fwdCalc_cell_zero:
  "F s (t, ts, d, h) = 0 \<Longrightarrow> fwdCalc_cell T hm t ts d h s = s"
  by (simp add: fwdCalc_cell_explicit)

lemma fold_fixed: "(\<And>x. x \<in> set xs \<Longrightarrow> f x s = s) \<Longrightarrow> fold f xs s = s"
  by (induction xs) simp_all

text \<open>The state after the only cell of the first sweep that carries mass.\<close>

lemma first_cell_F_maxT:
  "F (fwdCalc_cell T hm maxT 0 0 0 (fwdCalc_init\<lparr>predDeaths := 0, damageDeaths := 0, bkgrndDeaths := 0\<rparr>))
     (maxT, ts, d, h) = (if ts = 0 \<and> d = 0 \<and> h = 0 then 1 else 0)"
  by (simp add: fwdCalc_cell_explicit fwdCalc_init_def maxT_def)

lemma first_cell_F_maxTs:
  "F (fwdCalc_cell T hm maxT 0 0 0 (fwdCalc_init\<lparr>predDeaths := 0, damageDeaths := 0, bkgrndDeaths := 0\<rparr>))
     (t, maxTs, d, h) = 0"
  by (simp add: fwdCalc_cell_explicit fwdCalc_init_def maxTs_def)

lemma first_cell_tallies:
  "predDeaths (fwdCalc_cell T hm maxT 0 0 0 (fwdCalc_init\<lparr>predDeaths := 0, damageDeaths := 0, bkgrndDeaths := 0\<rparr>))
     = pPred T maxT * pAttack T * pKilled T 0"
  "damageDeaths (fwdCalc_cell T hm maxT 0 0 0 (fwdCalc_init\<lparr>predDeaths := 0, damageDeaths := 0, bkgrndDeaths := 0\<rparr>))
     = 0"
  "bkgrndDeaths (fwdCalc_cell T hm maxT 0 0 0 (fwdCalc_init\<lparr>predDeaths := 0, damageDeaths := 0, bkgrndDeaths := 0\<rparr>))
     = (1 - pPred T maxT * pAttack T * pKilled T 0) * mu T 0"
  by (simp_all add: fwdCalc_cell_explicit fwdCalc_init_def)

lemma fwdCalc_sweep_first:
  "fwdCalc_sweep T hm (fwdCalc_init\<lparr>predDeaths := 0, damageDeaths := 0, bkgrndDeaths := 0\<rparr>)
     = fwdCalc_cell T hm maxT 0 0 0 (fwdCalc_init\<lparr>predDeaths := 0, damageDeaths := 0, bkgrndDeaths := 0\<rparr>)"
proof -
  let ?s0 = "fwdCalc_init\<lparr>predDeaths := 0, damageDeaths := 0, bkgrndDeaths := 0\<rparr>"
  let ?s1 = "fwdCalc_cell T hm maxT 0 0 0 ?s0"
  let ?C = "\<lambda>t ts d. fold (\<lambda>h. fwdCalc_cell T hm t ts d h) [0..maxH]"
  let ?B = "\<lambda>t ts. fold (?C t ts) [0..maxD]"
  let ?A = "\<lambda>t. fold (?B t) [0..maxTs - 1]"
  have early: "?A t ?s0 = ?s0" if "t \<noteq> maxT" for t
  proof -
    have c: "fwdCalc_cell T hm t ts d h ?s0 = ?s0" for ts d h
      using that by (intro fwdCalc_cell_zero) (simp add: fwdCalc_init_def)
    have C: "?C t ts d ?s0 = ?s0" for ts d
      by (rule fold_fixed) (rule c)
    have B: "?B t ts ?s0 = ?s0" for ts
      by (rule fold_fixed) (rule C)
    show ?thesis
      by (rule fold_fixed) (rule B)
  qed
  have cell1: "fwdCalc_cell T hm maxT ts d h ?s1 = ?s1" if "\<not> (ts = 0 \<and> d = 0 \<and> h = 0)" for ts d h
    using that by (intro fwdCalc_cell_zero) (simp add: first_cell_F_maxT)
  have hs: "[0..maxH] = 0 # [1..maxH]"
    by (simp add: maxH_def upto_rec1)
  have ds: "[0..maxD] = 0 # [1..maxD]"
    by (simp add: maxD_def upto_rec1)
  have tss: "[0..maxTs - 1] = 0 # [1..maxTs - 1]"
    by (simp add: maxTs_def upto_rec1)
  have ts_: "[1..maxT] = [1..maxT - 1] @ [maxT]"
    using upto_rec2 [of 1 maxT] by (simp add: maxT_def)
  have C0: "?C maxT 0 0 ?s0 = ?s1"
  proof -
    have "fold (\<lambda>h. fwdCalc_cell T hm maxT 0 0 h) [1..maxH] ?s1 = ?s1"
      by (rule fold_fixed) (rule cell1, simp)
    then show ?thesis by (simp add: hs)
  qed
  have C1: "?C maxT ts d ?s1 = ?s1" if "\<not> (ts = 0 \<and> d = 0)" for ts d
    using that by - (rule fold_fixed, rule cell1, blast)
  have B0: "?B maxT 0 ?s0 = ?s1"
  proof -
    have "fold (?C maxT 0) [1..maxD] ?s1 = ?s1"
      by (rule fold_fixed) (rule C1, simp)
    then show ?thesis by (simp add: ds C0)
  qed
  have B1: "?B maxT ts ?s1 = ?s1" if "ts \<noteq> 0" for ts
    using that by - (rule fold_fixed, rule C1, blast)
  have A: "?A maxT ?s0 = ?s1"
  proof -
    have "fold (?B maxT) [1..maxTs - 1] ?s1 = ?s1"
      by (rule fold_fixed) (rule B1, simp)
    then show ?thesis by (simp add: tss B0)
  qed
  have "fold ?A [1..maxT - 1] ?s0 = ?s0"
    by (rule fold_fixed) (rule early, simp)
  then show ?thesis
    unfolding fwdCalc_sweep_def by (simp add: ts_ A)
qed

lemma wipe_fold:
  "fold (\<lambda>u A. A((t, u, d, h) := (0::real))) us A (t', u', d', h')
     = (if (t', d', h') = (t, d, h) \<and> u' \<in> set us then 0 else A (t', u', d', h'))"
  by (induction us arbitrary: A) auto

lemma fwdCalc_boundary_cell_result:
  "predDeaths (fwdCalc_boundary_cell t d h s) = predDeaths s"
  "damageDeaths (fwdCalc_boundary_cell t d h s) = damageDeaths s"
  "bkgrndDeaths (fwdCalc_boundary_cell t d h s) = bkgrndDeaths s"
  "F (fwdCalc_boundary_cell t d h s) (t', u, d', h')
     = (if (t', d', h') = (t, d, h)
        then (if 1 \<le> u \<and> u \<le> maxTs then 0
              else if u = 0 then F s (t, maxTs, d, h) / (1 - predDeaths s - damageDeaths s)
              else F s (t', u, d', h'))
        else F s (t', u, d', h'))"
  by (auto simp: fwdCalc_boundary_cell_def Let_def wipe_fold maxTs_def)

lemma fwdCalc_boundary_fold:
  "distinct xs \<Longrightarrow>
     predDeaths (fold (\<lambda>(t, d, h). fwdCalc_boundary_cell t d h) xs s) = predDeaths s
   \<and> damageDeaths (fold (\<lambda>(t, d, h). fwdCalc_boundary_cell t d h) xs s) = damageDeaths s
   \<and> bkgrndDeaths (fold (\<lambda>(t, d, h). fwdCalc_boundary_cell t d h) xs s) = bkgrndDeaths s
   \<and> F (fold (\<lambda>(t, d, h). fwdCalc_boundary_cell t d h) xs s) (t', u, d', h')
       = (if (t', d', h') \<in> set xs
          then (if 1 \<le> u \<and> u \<le> maxTs then 0
                else if u = 0 then F s (t', maxTs, d', h') / (1 - predDeaths s - damageDeaths s)
                else F s (t', u, d', h'))
          else F s (t', u, d', h'))"
proof (induction xs arbitrary: s)
  case Nil
  show ?case by simp
next
  case (Cons x xs)
  obtain t d h where x: "x = (t, d, h)" by (cases x)
  let ?s1 = "fwdCalc_boundary_cell t d h s"
  from Cons.prems have dist: "distinct xs" and notin: "(t, d, h) \<notin> set xs"
    by (simp_all add: x)
  have step: "fold (\<lambda>(t, d, h). fwdCalc_boundary_cell t d h) (x # xs) s
      = fold (\<lambda>(t, d, h). fwdCalc_boundary_cell t d h) xs ?s1"
    by (simp add: x)
  show ?case
    unfolding step using Cons.IH [OF dist, of ?s1] notin
    by (auto simp: fwdCalc_boundary_cell_result x)
qed

lemma fwdCalc_boundary_result:
  "predDeaths (fwdCalc_boundary s) = predDeaths s"
  "damageDeaths (fwdCalc_boundary s) = damageDeaths s"
  "bkgrndDeaths (fwdCalc_boundary s) = bkgrndDeaths s"
  "F (fwdCalc_boundary s) (t, u, d, h)
     = (if 1 \<le> t \<and> t \<le> maxT \<and> 0 \<le> d \<and> d \<le> maxD \<and> 0 \<le> h \<and> h \<le> maxH
        then (if 1 \<le> u \<and> u \<le> maxTs then 0
              else if u = 0
                then (if t = 1 \<and> d = 0 \<and> h = 0
                      then F s (1, maxTs, 0, 0) / (1 - predDeaths s - damageDeaths s - bkgrndDeaths s)
                             / (1 - predDeaths s - damageDeaths s)
                      else F s (t, maxTs, d, h) / (1 - predDeaths s - damageDeaths s))
              else F s (t, u, d, h))
        else F s (t, u, d, h))"
proof -
  let ?xs = "List.product [1..maxT] (List.product [0..maxD] [0..maxH])"
  let ?s1 = "s\<lparr>F := (F s)((1, maxTs, 0, 0) :=
                  F s (1, maxTs, 0, 0) / (1 - predDeaths s - damageDeaths s - bkgrndDeaths s))\<rparr>"
  have flat: "fwdCalc_boundary s = fold (\<lambda>(t, d, h). fwdCalc_boundary_cell t d h) ?xs ?s1"
    unfolding fwdCalc_boundary_def Let_def by (rule fold_product3)
  have dist: "distinct ?xs"
    by (simp add: distinct_product)
  note r = fwdCalc_boundary_fold [OF dist, of ?s1]
  show "predDeaths (fwdCalc_boundary s) = predDeaths s"
    "damageDeaths (fwdCalc_boundary s) = damageDeaths s"
    "bkgrndDeaths (fwdCalc_boundary s) = bkgrndDeaths s"
    using r [of t u d h] by (simp_all add: flat)
  show "F (fwdCalc_boundary s) (t, u, d, h)
     = (if 1 \<le> t \<and> t \<le> maxT \<and> 0 \<le> d \<and> d \<le> maxD \<and> 0 \<le> h \<and> h \<le> maxH
        then (if 1 \<le> u \<and> u \<le> maxTs then 0
              else if u = 0
                then (if t = 1 \<and> d = 0 \<and> h = 0
                      then F s (1, maxTs, 0, 0) / (1 - predDeaths s - damageDeaths s - bkgrndDeaths s)
                             / (1 - predDeaths s - damageDeaths s)
                      else F s (t, maxTs, d, h) / (1 - predDeaths s - damageDeaths s))
              else F s (t, u, d, h))
        else F s (t, u, d, h))"
    using r [of t u d h] by (auto simp: flat maxTs_def maxT_def maxD_def maxH_def)
qed

text \<open>
  C3. The claim (the mass is divided by one minus all three death tallies, and sums to
  \<open>1\<close> after every boundary) does not hold of the program. \<open>fwdCalc_boundary_result\<close>: the loop
  divides by \<open>1 - predDeaths - damageDeaths\<close>; only \<open>F[1][maxTs][0][0]\<close> is divided by one
  minus all three tallies first. And the sweep runs \<open>t\<close> outermost, in place: the mass that
  leaves \<open>(maxT, 0, 0, 0)\<close> lands in rows \<open>t = 1\<close> and \<open>t = maxT - 1\<close>, which the sweep has
  already passed, so nothing reaches \<open>ts = maxTs\<close>. At the first boundary, with defined
  divisions, every frequency of the lattice is \<open>0\<close>: the total mass is \<open>0\<close>, not \<open>1\<close>.
\<close>

theorem fwdCalc_first_boundary_mass:
  assumes "pPred T maxT * pAttack T * pKilled T 0 \<noteq> 1" and "mu T 0 \<noteq> 1"
  shows "predDeaths (fwdCalc_iteration T hm fwdCalc_init) = pPred T maxT * pAttack T * pKilled T 0
     \<and> damageDeaths (fwdCalc_iteration T hm fwdCalc_init) = 0
     \<and> bkgrndDeaths (fwdCalc_iteration T hm fwdCalc_init)
         = (1 - pPred T maxT * pAttack T * pKilled T 0) * mu T 0
     \<and> (\<forall>t ts d h. 1 \<le> t \<and> t \<le> maxT \<and> 0 \<le> ts \<and> ts \<le> maxTs
                   \<and> 0 \<le> d \<and> d \<le> maxD \<and> 0 \<le> h \<and> h \<le> maxH
          \<longrightarrow> F (fwdCalc_iteration T hm fwdCalc_init) (t, ts, d, h) = 0)
     \<and> (\<Sum>t\<in>{1..maxT}. \<Sum>d\<in>{0..maxD}. \<Sum>h\<in>{0..maxH}.
            F (fwdCalc_iteration T hm fwdCalc_init) (t, maxTs, d, h)) = 0
     \<and> (\<Sum>t\<in>{1..maxT}. \<Sum>d\<in>{0..maxD}. \<Sum>h\<in>{0..maxH}.
            F (fwdCalc_iteration T hm fwdCalc_init) (t, 0, d, h)) = 0"
proof -
  let ?s0 = "fwdCalc_init\<lparr>predDeaths := 0, damageDeaths := 0, bkgrndDeaths := 0\<rparr>"
  let ?s1 = "fwdCalc_cell T hm maxT 0 0 0 ?s0"
  have it: "fwdCalc_iteration T hm fwdCalc_init = fwdCalc_boundary ?s1"
    by (simp add: fwdCalc_iteration_def fwdCalc_sweep_first)
  have zero: "F (fwdCalc_boundary ?s1) (t, ts, d, h) = 0"
    if "1 \<le> t \<and> t \<le> maxT \<and> 0 \<le> ts \<and> ts \<le> maxTs \<and> 0 \<le> d \<and> d \<le> maxD \<and> 0 \<le> h \<and> h \<le> maxH"
    for t ts d h
    using that by (simp add: fwdCalc_boundary_result first_cell_F_maxTs)
  have "(\<Sum>t\<in>{1..maxT}. \<Sum>d\<in>{0..maxD}. \<Sum>h\<in>{0..maxH}. F (fwdCalc_boundary ?s1) (t, maxTs, d, h)) = 0"
    by (intro sum.neutral ballI zero) (simp add: maxTs_def)
  moreover have "(\<Sum>t\<in>{1..maxT}. \<Sum>d\<in>{0..maxD}. \<Sum>h\<in>{0..maxH}. F (fwdCalc_boundary ?s1) (t, 0, d, h)) = 0"
    by (intro sum.neutral ballI zero) (simp add: maxTs_def)
  ultimately show ?thesis
    unfolding it using zero by (simp add: fwdCalc_boundary_result first_cell_tallies)
qed

theorem fwdCalc_first_boundary_mass_witness:
  "predDeaths (fwdCalc_iteration tables_example (hormone sdp_init) fwdCalc_init)
       = pPred tables_example maxT * pAttack tables_example * pKilled tables_example 0
     \<and> damageDeaths (fwdCalc_iteration tables_example (hormone sdp_init) fwdCalc_init) = 0
     \<and> bkgrndDeaths (fwdCalc_iteration tables_example (hormone sdp_init) fwdCalc_init)
         = (1 - pPred tables_example maxT * pAttack tables_example * pKilled tables_example 0)
             * mu tables_example 0
     \<and> F (fwdCalc_iteration tables_example (hormone sdp_init) fwdCalc_init) (100, 0, 0, 0) = 0
     \<and> (\<Sum>t\<in>{1..maxT}. \<Sum>d\<in>{0..maxD}. \<Sum>h\<in>{0..maxH}.
            F (fwdCalc_iteration tables_example (hormone sdp_init) fwdCalc_init) (t, maxTs, d, h)) = 0
     \<and> (\<Sum>t\<in>{1..maxT}. \<Sum>d\<in>{0..maxD}. \<Sum>h\<in>{0..maxH}.
            F (fwdCalc_iteration tables_example (hormone sdp_init) fwdCalc_init) (t, 0, d, h)) = 0"
proof -
  obtain p where p: "PredProb (1 / 2) (1 / 10) (1 / 2) pPred_init maxT = Some p" "p \<le> 1"
    using PredProb_inv [of "1 / 2" "1 / 10" "1 / 2" maxT pPred_init] by (auto simp: maxT_def)
  then have "pPred tables_example maxT \<le> 1"
    by (simp add: tables_example_def)
  then have a: "pPred tables_example maxT * pAttack tables_example * pKilled tables_example 0 \<noteq> 1"
    by (simp add: tables_example_values)
  have b: "mu tables_example 0 \<noteq> 1"
    by (simp add: tables_example_values)
  from fwdCalc_first_boundary_mass [OF a b, of "hormone sdp_init"] show ?thesis
    by (simp add: maxT_def maxTs_def maxD_def maxH_def)
qed

end
